theory Spec2Isabelle
  imports Complex_Main
begin

section \<open>The time axis of the timeline (src/timeline/component/TimeAxis.js)\<close>

text \<open>
  A shallow embedding of the \<^verbatim>\<open>TimeAxis\<close> component. JavaScript numbers are modelled
  as reals with exact arithmetic; the places where JavaScript leaves the finite numbers
  (a division by a zero scale, a time value outside the range of \<^verbatim>\<open>Date\<close>) are written
  out as the value \<open>InvalidDate\<close>. A \<^verbatim>\<open>Date\<close> holds a whole number of milliseconds:
  \<^verbatim>\<open>new Date(v)\<close> truncates \<open>v\<close> toward zero. Exceptions are values of the
  type \<open>error\<close>, and every function that can throw returns a sum with the error on
  the left.
\<close>

subsection \<open>Values, errors, dates\<close>

datatype error =
    TypeError string
  | Error string
  | NotFoundError

definition andThen :: "'e + 'a \<Rightarrow> ('a \<Rightarrow> 'e + 'b) \<Rightarrow> 'e + 'b" where
  "andThen m f = (case m of Inl e \<Rightarrow> Inl e | Inr a \<Rightarrow> f a)"

text \<open>An exception thrown by a call that leaves the state \<open>s\<close> as it is.\<close>

definition lift :: "'s \<Rightarrow> error + 'a \<Rightarrow> (error \<times> 's) + 'a" where
  "lift s m = (case m of Inl e \<Rightarrow> Inl (e, s) | Inr a \<Rightarrow> Inr a)"

record conversion =
  scale :: real
  offset :: real

datatype instant = Instant int | InvalidDate

text \<open>\<^verbatim>\<open>new Date(v)\<close> for a number \<open>v\<close>: the time value is clipped to
  \<open>\<plusminus>8.64e15\<close> ms and truncated toward zero.\<close>

definition newDate :: "real \<Rightarrow> instant" where
  "newDate v =
     (if \<bar>v\<bar> \<le> 8640000000000000
      then Instant (if 0 \<le> v then \<lfloor>v\<rfloor> else \<lceil>v\<rceil>)
      else InvalidDate)"

datatype proto = PlainObject | RangeInstance

text \<open>The JavaScript values a caller can hand to \<^verbatim>\<open>setRange\<close>. An object is its
  property list together with whether it is an \<^verbatim>\<open>instanceof Range\<close>.\<close>

datatype jsval =
    JUndefined
  | JNull
  | JBool bool
  | JNum real
  | JNaN
  | JStr string
  | JDate int
  | JFun "real \<Rightarrow> conversion"
  | JObj proto "(string \<times> jsval) list"

text \<open>JavaScript's ToBoolean.\<close>

fun truthy :: "jsval \<Rightarrow> bool" where
  "truthy JUndefined = False"
| "truthy JNull = False"
| "truthy (JBool b) = b"
| "truthy (JNum r) = (r \<noteq> 0)"
| "truthy JNaN = False"
| "truthy (JStr s) = (s \<noteq> [])"
| "truthy (JDate t) = True"
| "truthy (JFun f) = True"
| "truthy (JObj p fs) = True"

text \<open>Property read \<^verbatim>\<open>v.name\<close> on a value that is neither null nor undefined: an
  absent property reads as \<^verbatim>\<open>undefined\<close>.\<close>

fun getProp :: "jsval \<Rightarrow> string \<Rightarrow> jsval" where
  "getProp (JObj p fs) name = (case map_of fs name of Some v \<Rightarrow> v | None \<Rightarrow> JUndefined)"
| "getProp v name = JUndefined"

fun instanceofRange :: "jsval \<Rightarrow> bool" where
  "instanceofRange (JObj RangeInstance fs) = True"
| "instanceofRange v = False"

text \<open>Whether a value exposes a field: it is an object with that property.\<close>

fun exposes :: "jsval \<Rightarrow> string \<Rightarrow> bool" where
  "exposes (JObj p fs) name = (name \<in> fst ` set fs)"
| "exposes v name = False"

subsection \<open>The document\<close>

datatype css = CssEmpty | Px real | Raw string

text \<open>An element of the document. Elements are referred to by their index in the
  document's node list. \<open>nodeValue\<close> is the text of the element's text node child, if it
  has one.\<close>

record node =
  className :: string
  nodeValue :: "string option"
  style_top :: css
  style_bottom :: css
  style_left :: css
  style_width :: css
  style_height :: css
  parentNode :: "nat option"
  childNodes :: "nat list"

definition blank :: node where
  "blank = \<lparr> className = [], nodeValue = None, style_top = CssEmpty, style_bottom = CssEmpty,
             style_left = CssEmpty, style_width = CssEmpty, style_height = CssEmpty,
             parentNode = None, childNodes = [] \<rparr>"

definition createElement :: "node list \<Rightarrow> nat \<times> node list" where
  "createElement doc = (length doc, doc @ [blank])"

text \<open>Taking a node out of its parent's child list, if it has a parent.\<close>

definition detach :: "nat \<Rightarrow> node list \<Rightarrow> node list" where
  "detach c doc =
     (case parentNode (doc ! c) of
        None \<Rightarrow> doc
      | Some p \<Rightarrow>
          (let d1 = doc[p := (doc ! p)\<lparr>childNodes := remove1 c (childNodes (doc ! p))\<rparr>]
           in d1[c := (d1 ! c)\<lparr>parentNode := None\<rparr>]))"

text \<open>\<^verbatim>\<open>p.appendChild(c)\<close>: a node that already has a parent is moved.\<close>

definition appendChild :: "nat \<Rightarrow> nat \<Rightarrow> node list \<Rightarrow> node list" where
  "appendChild p c doc =
     (let d1 = detach c doc;
          d2 = d1[p := (d1 ! p)\<lparr>childNodes := childNodes (d1 ! p) @ [c]\<rparr>]
      in d2[c := (d2 ! c)\<lparr>parentNode := Some p\<rparr>])"

text \<open>\<^verbatim>\<open>p.removeChild(c)\<close> throws when \<open>c\<close> is not a child of \<open>p\<close>.\<close>

definition removeChild :: "nat \<Rightarrow> nat \<Rightarrow> node list \<Rightarrow> error + node list" where
  "removeChild p c doc =
     (if parentNode (doc ! c) = Some p then Inr (detach c doc) else Inl NotFoundError)"

fun insertBeforeList :: "nat \<Rightarrow> nat \<Rightarrow> nat list \<Rightarrow> nat list" where
  "insertBeforeList c r [] = [c]"
| "insertBeforeList c r (x # xs) = (if x = r then c # x # xs else x # insertBeforeList c r xs)"

definition insertBefore :: "nat \<Rightarrow> nat \<Rightarrow> nat \<Rightarrow> node list \<Rightarrow> error + node list" where
  "insertBefore p c r doc =
     (if parentNode (doc ! r) = Some p then
        (let d1 = detach c doc;
             d2 = d1[p := (d1 ! p)\<lparr>childNodes := insertBeforeList c r (childNodes (d1 ! p))\<rparr>]
         in Inr (d2[c := (d2 ! c)\<lparr>parentNode := Some p\<rparr>]))
      else Inl NotFoundError)"

fun nextInList :: "nat \<Rightarrow> nat list \<Rightarrow> nat option" where
  "nextInList c [] = None"
| "nextInList c [x] = None"
| "nextInList c (x # y # xs) = (if x = c then Some y else nextInList c (y # xs))"

definition nextSibling :: "nat \<Rightarrow> node list \<Rightarrow> nat option" where
  "nextSibling c doc =
     (case parentNode (doc ! c) of
        None \<Rightarrow> None
      | Some p \<Rightarrow> nextInList c (childNodes (doc ! p)))"

subsection \<open>The host, the step generator and the component's state\<close>

text \<open>The four arrays of \<^verbatim>\<open>this.dom\<close> (and of \<^verbatim>\<open>this.dom.redundant\<close>), by property
  name.\<close>

datatype kind = majorLines | majorTexts | minorLines | minorTexts

record options =
  opt_orientation :: "string option"
  opt_showMinorLabels :: "bool option"
  opt_showMajorLabels :: "bool option"

text \<open>The parent component: its container element and its height.\<close>

record component =
  getContainer :: "nat option"
  parent_height :: real

text \<open>
  What the component takes from outside this file, as parameters: the measurements of
  the host surface (\<^verbatim>\<open>frame.offsetWidth\<close>, the client box of the two text probes), the
  helpers \<^verbatim>\<open>util.option.asSize(options.width, '100%')\<close>, \<^verbatim>\<open>util.convert(v, 'Number')\<close> and
  \<^verbatim>\<open>Range.conversion(start, end, width)\<close>, and the step generator \<^verbatim>\<open>TimeStep\<close> with
  its cursor operations on a cursor state \<open>'c\<close>. \<open>getLabelMajor\<close> is the call without
  argument (the label of the current tick), \<open>getLabelMajorAt\<close> the call with a date. The
  minimum step handed to the generator is \<open>None\<close> when JavaScript computes \<^verbatim>\<open>NaN\<close>.
  \<open>fl\<close> is the rounding of the exact result of an arithmetic operation to a Number (an
  IEEE double); it is applied where \<^verbatim>\<open>toTime\<close> and \<^verbatim>\<open>toScreen\<close> divide, add, subtract
  and multiply, and every theorem about them holds for every rounding.
\<close>

record 'c host =
  offsetWidth :: real
  minorClientHeight :: real
  minorClientWidth :: real
  majorClientHeight :: real
  majorClientWidth :: real
  asSize :: css
  convert :: "jsval \<Rightarrow> real"
  Range_conversion :: "jsval \<Rightarrow> jsval \<Rightarrow> real \<Rightarrow> conversion"
  TimeStep :: "instant \<Rightarrow> instant \<Rightarrow> real option \<Rightarrow> 'c"
  first :: "'c \<Rightarrow> 'c"
  hasNext :: "'c \<Rightarrow> bool"
  next' :: "'c \<Rightarrow> 'c"
  getCurrent :: "'c \<Rightarrow> int"
  isMajor :: "'c \<Rightarrow> bool"
  getLabelMinor :: "'c \<Rightarrow> string"
  getLabelMajor :: "'c \<Rightarrow> string"
  getLabelMajorAt :: "'c \<Rightarrow> instant \<Rightarrow> string"
  fl :: "real \<Rightarrow> real"

text \<open>
  The state: the document and the fields of the \<^verbatim>\<open>TimeAxis\<close> object. \<open>props_minorCharHeight\<close>
  and its three siblings are absent until measured. The numeric fields that JavaScript
  leaves undefined until \<^verbatim>\<open>repaint\<close> assigns them (\<open>width\<close>, \<open>height\<close>, the label and
  line sizes) start at 0 here; \<^verbatim>\<open>repaint\<close> writes each of them before it reads it.
  The fields \<^verbatim>\<open>id\<close> and \<^verbatim>\<open>depends\<close> are never read in this file and are left out.
\<close>

record 'c state =
  document :: "node list"
  parent :: "component option"
  frame :: "nat option"
  dom_active :: "kind \<Rightarrow> nat list"
  dom_redundant :: "kind \<Rightarrow> nat list"
  dom_line :: "nat option"
  props_minorCharHeight :: "real option"
  props_minorCharWidth :: "real option"
  props_majorCharHeight :: "real option"
  props_majorCharWidth :: "real option"
  props_minorLabelHeight :: real
  props_majorLabelHeight :: real
  props_minorLineHeight :: real
  props_minorLineWidth :: real
  props_majorLineHeight :: real
  props_majorLineWidth :: real
  options :: options
  width :: real
  height :: real
  conversion :: "conversion option"
  range' :: "jsval option"
  step :: "'c option"

text \<open>The outcome of a method that changes the state: the new state, or the exception
  thrown together with the state it leaves behind.\<close>

type_synonym 'c result = "(error \<times> 'c state) + 'c state"

text \<open>The constructor \<^verbatim>\<open>TimeAxis(parent, depends, options)\<close>, in a given document.\<close>

definition TimeAxis :: "node list \<Rightarrow> component option \<Rightarrow> options \<Rightarrow> 'c state" where
  "TimeAxis doc par opts =
     \<lparr> document = doc, parent = par, frame = None,
       dom_active = (\<lambda>k. []), dom_redundant = (\<lambda>k. []), dom_line = None,
       props_minorCharHeight = None, props_minorCharWidth = None,
       props_majorCharHeight = None, props_majorCharWidth = None,
       props_minorLabelHeight = 0, props_majorLabelHeight = 0,
       props_minorLineHeight = 0, props_minorLineWidth = 0,
       props_majorLineHeight = 0, props_majorLineWidth = 0,
       options = opts, width = 0, height = 0,
       conversion = None, range' = None, step = None \<rparr>"

text \<open>Modelled from the spec: \<^verbatim>\<open>Component.prototype.getOption\<close> is not in this file. The
  recognised options are \<open>orientation\<close> (default \<open>bottom\<close>), \<open>showMinorLabels\<close> (default
  true) and \<open>showMajorLabels\<close> (default true); the defaults are those of
  \<^verbatim>\<open>this.defaultOptions\<close> in the constructor.\<close>

definition getOption_orientation :: "'c state \<Rightarrow> string" where
  "getOption_orientation s =
     (case opt_orientation (options s) of Some v \<Rightarrow> v | None \<Rightarrow> ''bottom'')"

definition getOption_showMinorLabels :: "'c state \<Rightarrow> bool" where
  "getOption_showMinorLabels s =
     (case opt_showMinorLabels (options s) of Some v \<Rightarrow> v | None \<Rightarrow> True)"

definition getOption_showMajorLabels :: "'c state \<Rightarrow> bool" where
  "getOption_showMajorLabels s =
     (case opt_showMajorLabels (options s) of Some v \<Rightarrow> v | None \<Rightarrow> True)"

subsection \<open>setRange, toTime, toScreen\<close>

definition setRange :: "jsval \<Rightarrow> 'c state \<Rightarrow> 'c result" where
  "setRange rng s =
     (if \<not> instanceofRange rng \<and>
         (\<not> truthy rng \<or> \<not> truthy (getProp rng ''start'') \<or> \<not> truthy (getProp rng ''end''))
      then Inl (TypeError ''Range must be an instance of Range, or an object containing start and end.'', s)
      else Inr (s\<lparr>range' := Some rng\<rparr>))"

text \<open>The arithmetic of \<^verbatim>\<open>toTime\<close> and \<^verbatim>\<open>toScreen\<close> for a given conversion:
  \<^verbatim>\<open>x / scale + offset\<close> and \<^verbatim>\<open>(t - offset) * scale\<close>, each operation rounded. A zero
  scale makes \<^verbatim>\<open>x / scale\<close> infinite or \<^verbatim>\<open>NaN\<close>, and the date invalid.\<close>

definition conv_toTime :: "'c host \<Rightarrow> conversion \<Rightarrow> real \<Rightarrow> instant" where
  "conv_toTime env c x =
     (if scale c = 0 then InvalidDate
      else newDate (fl env (fl env (x / scale c) + offset c)))"

definition conv_toScreen :: "'c host \<Rightarrow> conversion \<Rightarrow> int \<Rightarrow> real" where
  "conv_toScreen env c t = fl env (fl env (real_of_int t - offset c) * scale c)"

text \<open>Reading \<^verbatim>\<open>conversion.scale\<close> while \<^verbatim>\<open>this.conversion\<close> is still \<^verbatim>\<open>null\<close> throws
  a \<^verbatim>\<open>TypeError\<close>.\<close>

definition toTime :: "'c host \<Rightarrow> 'c state \<Rightarrow> real \<Rightarrow> error + instant" where
  "toTime env s x =
     (case conversion s of
        None \<Rightarrow> Inl (TypeError ''Cannot read property scale of null'')
      | Some c \<Rightarrow> Inr (conv_toTime env c x))"

definition toScreen :: "'c host \<Rightarrow> 'c state \<Rightarrow> int \<Rightarrow> error + real" where
  "toScreen env s t =
     (case conversion s of
        None \<Rightarrow> Inl (TypeError ''Cannot read property offset of null'')
      | Some c \<Rightarrow> Inr (conv_toScreen env c t))"

definition updateConversion :: "'c host \<Rightarrow> 'c state \<Rightarrow> 'c result" where
  "updateConversion env s =
     (case range' s of
        None \<Rightarrow> Inl (Error ''No range configured'', s)
      | Some rng \<Rightarrow>
          (case getProp rng ''conversion'' of
             JFun f \<Rightarrow> Inr (s\<lparr>conversion := Some (f (width s))\<rparr>)
           | v \<Rightarrow>
               if truthy v then Inl (TypeError ''range.conversion is not a function'', s)
               else Inr (s\<lparr>conversion :=
                      Some (Range_conversion env (getProp rng ''start'') (getProp rng ''end'')
                              (width s))\<rparr>)))"

subsection \<open>Placing one label or line\<close>

text \<open>\<^verbatim>\<open>v || 10\<close> on a measurement that may be absent: an absent or zero value gives
  the default.\<close>

definition orDefault :: "real option \<Rightarrow> real \<Rightarrow> real" where
  "orDefault v d = (case v of None \<Rightarrow> d | Some w \<Rightarrow> if w = 0 then d else w)"

text \<open>Each of the four functions takes the first element of its redundant array
  (\<^verbatim>\<open>shift()\<close>), or creates an element and appends it to the frame when the array is
  empty; pushes it on its active array; and writes its text and position.\<close>

definition repaintMinorText :: "real \<Rightarrow> string \<Rightarrow> string \<Rightarrow> 'c state \<Rightarrow> 'c result" where
  "repaintMinorText x text orientation s =
     andThen
       (case dom_redundant s minorTexts of
          label # rest \<Rightarrow> Inr (label, s\<lparr>dom_redundant := (dom_redundant s)(minorTexts := rest)\<rparr>)
        | [] \<Rightarrow>
            (case frame s of
               None \<Rightarrow> Inl (TypeError ''Cannot read property appendChild of undefined'', s)
             | Some f \<Rightarrow>
                 (let (label, d) = createElement (document s);
                      d1 = d[label := (d ! label)\<lparr>className := ''text minor'', nodeValue := Some []\<rparr>]
                  in Inr (label, s\<lparr>document := appendChild f label d1\<rparr>))))
       (\<lambda>(label, s1).
          let s2 = s1\<lparr>dom_active := (dom_active s1)(minorTexts := dom_active s1 minorTexts @ [label])\<rparr>;
              n = document s2 ! label
          in if nodeValue n = None
             then Inl (TypeError ''Cannot set property nodeValue of undefined'', s2)
             else
               (let n1 = n\<lparr>nodeValue := Some text\<rparr>;
                    n2 = (if orientation = ''top''
                          then n1\<lparr>style_top := Px (props_minorLabelHeight s2), style_bottom := CssEmpty\<rparr>
                          else n1\<lparr>style_top := CssEmpty, style_bottom := Px (props_minorLabelHeight s2)\<rparr>);
                    n3 = n2\<lparr>style_left := Px x\<rparr>
                in Inr (s2\<lparr>document := (document s2)[label := n3]\<rparr>)))"

definition repaintMajorText :: "real \<Rightarrow> string \<Rightarrow> string \<Rightarrow> 'c state \<Rightarrow> 'c result" where
  "repaintMajorText x text orientation s =
     andThen
       (case dom_redundant s majorTexts of
          label # rest \<Rightarrow> Inr (label, s\<lparr>dom_redundant := (dom_redundant s)(majorTexts := rest)\<rparr>)
        | [] \<Rightarrow>
            (case frame s of
               None \<Rightarrow> Inl (TypeError ''Cannot read property appendChild of undefined'', s)
             | Some f \<Rightarrow>
                 (let (label, d) = createElement (document s);
                      d1 = d[label := (d ! label)\<lparr>className := ''text major'', nodeValue := Some text\<rparr>]
                  in Inr (label, s\<lparr>document := appendChild f label d1\<rparr>))))
       (\<lambda>(label, s1).
          let s2 = s1\<lparr>dom_active := (dom_active s1)(majorTexts := dom_active s1 majorTexts @ [label])\<rparr>;
              n = document s2 ! label
          in if nodeValue n = None
             then Inl (TypeError ''Cannot set property nodeValue of undefined'', s2)
             else
               (let n1 = n\<lparr>nodeValue := Some text\<rparr>;
                    n2 = (if orientation = ''top''
                          then n1\<lparr>style_top := Px 0, style_bottom := CssEmpty\<rparr>
                          else n1\<lparr>style_top := CssEmpty, style_bottom := Px 0\<rparr>);
                    n3 = n2\<lparr>style_left := Px x\<rparr>
                in Inr (s2\<lparr>document := (document s2)[label := n3]\<rparr>)))"

definition repaintMinorLine :: "real \<Rightarrow> string \<Rightarrow> 'c state \<Rightarrow> 'c result" where
  "repaintMinorLine x orientation s =
     andThen
       (case dom_redundant s minorLines of
          line # rest \<Rightarrow> Inr (line, s\<lparr>dom_redundant := (dom_redundant s)(minorLines := rest)\<rparr>)
        | [] \<Rightarrow>
            (case frame s of
               None \<Rightarrow> Inl (TypeError ''Cannot read property appendChild of undefined'', s)
             | Some f \<Rightarrow>
                 (let (line, d) = createElement (document s);
                      d1 = d[line := (d ! line)\<lparr>className := ''grid vertical minor''\<rparr>]
                  in Inr (line, s\<lparr>document := appendChild f line d1\<rparr>))))
       (\<lambda>(line, s1).
          let s2 = s1\<lparr>dom_active := (dom_active s1)(minorLines := dom_active s1 minorLines @ [line])\<rparr>;
              n = document s2 ! line;
              n1 = (if orientation = ''top''
                    then n\<lparr>style_top := Px (props_minorLabelHeight s2), style_bottom := CssEmpty\<rparr>
                    else n\<lparr>style_top := CssEmpty, style_bottom := Px (props_minorLabelHeight s2)\<rparr>);
              n2 = n1\<lparr>style_height := Px (props_minorLineHeight s2)\<rparr>;
              n3 = n2\<lparr>style_left := Px (x - props_minorLineWidth s2 / 2)\<rparr>
          in Inr (s2\<lparr>document := (document s2)[line := n3]\<rparr>))"

definition repaintMajorLine :: "real \<Rightarrow> string \<Rightarrow> 'c state \<Rightarrow> 'c result" where
  "repaintMajorLine x orientation s =
     andThen
       (case dom_redundant s majorLines of
          line # rest \<Rightarrow> Inr (line, s\<lparr>dom_redundant := (dom_redundant s)(majorLines := rest)\<rparr>)
        | [] \<Rightarrow>
            (case frame s of
               None \<Rightarrow> Inl (TypeError ''Cannot read property appendChild of undefined'', s)
             | Some f \<Rightarrow>
                 (let (line, d) = createElement (document s);
                      d1 = d[line := (d ! line)\<lparr>className := ''grid vertical major''\<rparr>]
                  in Inr (line, s\<lparr>document := appendChild f line d1\<rparr>))))
       (\<lambda>(line, s1).
          let s2 = s1\<lparr>dom_active := (dom_active s1)(majorLines := dom_active s1 majorLines @ [line])\<rparr>;
              n = document s2 ! line;
              n1 = (if orientation = ''top''
                    then n\<lparr>style_top := Px 0, style_bottom := CssEmpty\<rparr>
                    else n\<lparr>style_top := CssEmpty, style_bottom := Px 0\<rparr>);
              n2 = n1\<lparr>style_left := Px (x - props_majorLineWidth s2 / 2)\<rparr>;
              n3 = n2\<lparr>style_height := Px (props_majorLineHeight s2)\<rparr>
          in Inr (s2\<lparr>document := (document s2)[line := n3]\<rparr>))"

subsection \<open>Repainting the labels and the gridlines\<close>

text \<open>The body of the loop over the ticks: the state after the tick, and
  \<^verbatim>\<open>xFirstMajorLabel\<close> (\<open>None\<close> while undefined).\<close>

definition tickBody ::
  "'c host \<Rightarrow> string \<Rightarrow> 'c \<Rightarrow> real option \<Rightarrow> 'c state \<Rightarrow> (error \<times> 'c state) + ('c state \<times> real option)" where
  "tickBody env orientation stp xFirstMajorLabel s =
     andThen (lift s (toScreen env s (getCurrent env stp))) (\<lambda>x.
     andThen (if getOption_showMinorLabels s
              then repaintMinorText x (getLabelMinor env stp) orientation s
              else Inr s) (\<lambda>s1.
       if isMajor env stp \<and> getOption_showMajorLabels s1 then
         andThen
           (if x > 0 then
              andThen (repaintMajorText x (getLabelMajor env stp) orientation s1)
                (\<lambda>s2. Inr (s2, (if xFirstMajorLabel = None then Some x else xFirstMajorLabel)))
            else Inr (s1, xFirstMajorLabel))
           (\<lambda>(s2, xf). andThen (repaintMajorLine x orientation s2) (\<lambda>s3. Inr (s3, xf)))
       else
         andThen (repaintMinorLine x orientation s1) (\<lambda>s3. Inr (s3, xFirstMajorLabel))))"

text \<open>\<^verbatim>\<open>while (step.hasNext() && max < 1000)\<close>, with \<open>max'\<close> the number of ticks
  already processed. The result carries the cursor where the loop left it.\<close>

function tickLoop ::
  "'c host \<Rightarrow> string \<Rightarrow> 'c \<Rightarrow> nat \<Rightarrow> real option \<Rightarrow> 'c state
     \<Rightarrow> (error \<times> 'c state) + ('c state \<times> 'c \<times> real option)" where
  "tickLoop env orientation stp max' xFirstMajorLabel s =
     (if hasNext env stp \<and> max' < 1000 then
        andThen (tickBody env orientation stp xFirstMajorLabel s)
          (\<lambda>(s3, xf). tickLoop env orientation (next' env stp) (max' + 1) xf s3)
      else Inr (s, stp, xFirstMajorLabel))"
  by pat_completeness auto
termination
  by (relation "measure (\<lambda>(env, orientation, stp, n, xf, s). 1000 - n)") auto

text \<open>The cleanup at the end of \<^verbatim>\<open>_repaintLabels\<close>: each redundant array is popped from
  its end until it is empty, and every popped element that has a parent is removed from
  it. The arrays are visited in the order of the properties of \<^verbatim>\<open>dom.redundant\<close>.\<close>

definition cleanupArray :: "nat list \<Rightarrow> node list \<Rightarrow> node list" where
  "cleanupArray arr doc = foldl (\<lambda>d elem. detach elem d) doc (rev arr)"

definition cleanup :: "'c state \<Rightarrow> 'c state" where
  "cleanup s =
     s\<lparr>document :=
         cleanupArray (dom_redundant s minorTexts)
           (cleanupArray (dom_redundant s minorLines)
             (cleanupArray (dom_redundant s majorTexts)
               (cleanupArray (dom_redundant s majorLines) (document s)))),
       dom_redundant := (\<lambda>k. [])\<rparr>"

text \<open>The difference of two \<^verbatim>\<open>valueOf()\<close>: \<^verbatim>\<open>NaN\<close> when a date is invalid.\<close>

fun diffValueOf :: "instant \<Rightarrow> instant \<Rightarrow> real option" where
  "diffValueOf (Instant a) (Instant b) = Some (real_of_int a - real_of_int b)"
| "diffValueOf a b = None"

text \<open>The head of \<^verbatim>\<open>_repaintLabels\<close>: the conversion, the step generator, and all
  active elements moved to the redundant arrays. The result is the state and the new
  cursor. The cursor object is kept in \<^verbatim>\<open>this.step\<close>; here the field is written when
  the cursor has stopped moving.\<close>

definition repaintLabels :: "'c host \<Rightarrow> 'c state \<Rightarrow> 'c result" where
  "repaintLabels env s0 =
     (let orientation = getOption_orientation s0 in
      andThen (updateConversion env s0) (\<lambda>s1.
      case range' s1 of
        None \<Rightarrow> Inl (TypeError ''Cannot read property start of null'', s1)
      | Some rng \<Rightarrow>
      let start = convert env (getProp rng ''start'');
          end' = convert env (getProp rng ''end'')
      in
      andThen (lift s1 (toTime env s1 (orDefault (props_minorCharWidth s1) 10 * 5))) (\<lambda>t5.
      andThen (lift s1 (toTime env s1 0)) (\<lambda>t0.
      let minimumStep = diffValueOf t5 t0;
          stp = TimeStep env (newDate start) (newDate end') minimumStep;
          s2 = s1\<lparr>step := Some stp\<rparr>;
          s3 = s2\<lparr>dom_redundant := dom_active s2, dom_active := (\<lambda>k. [])\<rparr>
      in
      andThen (tickLoop env orientation (first env stp) 0 None s3) (\<lambda>(s4, stp', xFirstMajorLabel).
      let s5 = s4\<lparr>step := Some stp'\<rparr> in
      andThen
        (if getOption_showMajorLabels s5 then
           andThen (lift s5 (toTime env s5 0)) (\<lambda>leftTime.
             let leftText = getLabelMajorAt env stp' leftTime;
                 widthText = real (length leftText) * orDefault (props_majorCharWidth s5) 10 + 10
             in if (case xFirstMajorLabel of None \<Rightarrow> True | Some xf \<Rightarrow> widthText < xf)
                then repaintMajorText 0 leftText orientation s5
                else Inr s5)
         else Inr s5)
        (\<lambda>s6. Inr (cleanup s6)))))))"

subsection \<open>The axis line, the character sizes, and repaint\<close>

text \<open>In the branch where both kinds of labels are hidden, the source passes
  \<^verbatim>\<open>line.line\<close> to \<^verbatim>\<open>removeChild\<close>. An element has no property \<^verbatim>\<open>line\<close>, so the
  argument is \<^verbatim>\<open>undefined\<close> and \<^verbatim>\<open>removeChild\<close> throws a \<^verbatim>\<open>TypeError\<close>.\<close>

definition repaintLine :: "'c state \<Rightarrow> 'c result" where
  "repaintLine s =
     (let orientation = getOption_orientation s in
      if getOption_showMinorLabels s \<or> getOption_showMajorLabels s then
        (case frame s of
           None \<Rightarrow> Inl (TypeError ''Cannot read property of undefined'', s)
         | Some f \<Rightarrow>
             andThen
               (case dom_line s of
                  Some line \<Rightarrow>
                    andThen (lift s (removeChild f line (document s)))
                      (\<lambda>d. Inr (line, s\<lparr>document := appendChild f line d\<rparr>))
                | None \<Rightarrow>
                    (let (line, d) = createElement (document s);
                         d1 = d[line := (d ! line)\<lparr>className := ''grid horizontal major''\<rparr>]
                     in Inr (line, s\<lparr>document := appendChild f line d1, dom_line := Some line\<rparr>)))
               (\<lambda>(line, s1).
                  let n = document s1 ! line;
                      n1 = (if orientation = ''top''
                            then n\<lparr>style_top := Px (height s1), style_bottom := CssEmpty\<rparr>
                            else n\<lparr>style_top := CssEmpty, style_bottom := Px (height s1)\<rparr>)
                  in Inr (s1\<lparr>document := (document s1)[line := n1]\<rparr>)))
      else
        (case dom_line s of
           Some line \<Rightarrow>
             if parentNode (document s ! line) \<noteq> None
             then Inl (TypeError ''Failed to execute removeChild: parameter 1 is not of type Node'', s)
             else Inr s
         | None \<Rightarrow> Inr s))"

definition calculateCharSize :: "'c host \<Rightarrow> 'c state \<Rightarrow> 'c result" where
  "calculateCharSize env s =
     andThen
       (if props_minorCharHeight s = None then
          (case frame s of
             None \<Rightarrow> Inl (TypeError ''Cannot read property appendChild of undefined'', s)
           | Some f \<Rightarrow>
               (let (measureCharMinor, d) = createElement (document s);
                    d1 = d[measureCharMinor :=
                             (d ! measureCharMinor)\<lparr>className := ''text minor measure'',
                                                    nodeValue := Some ''0''\<rparr>];
                    s1 = s\<lparr>document := appendChild f measureCharMinor d1,
                           props_minorCharHeight := Some (minorClientHeight env),
                           props_minorCharWidth := Some (minorClientWidth env)\<rparr>
                in andThen (lift s1 (removeChild f measureCharMinor (document s1)))
                     (\<lambda>d2. Inr (s1\<lparr>document := d2\<rparr>))))
        else Inr s)
       (\<lambda>s2.
          if props_majorCharHeight s2 = None then
            (case frame s2 of
               None \<Rightarrow> Inl (TypeError ''Cannot read property appendChild of undefined'', s2)
             | Some f \<Rightarrow>
                 (let (measureCharMajor, d) = createElement (document s2);
                      d1 = d[measureCharMajor :=
                               (d ! measureCharMajor)\<lparr>className := ''text major measure'',
                                                      nodeValue := Some ''0''\<rparr>];
                      s3 = s2\<lparr>document := appendChild f measureCharMajor d1,
                              props_majorCharHeight := Some (majorClientHeight env),
                              props_majorCharWidth := Some (majorClientWidth env)\<rparr>
                  in andThen (lift s3 (removeChild f measureCharMajor (document s3)))
                       (\<lambda>d2. Inr (s3\<lparr>document := d2\<rparr>))))
          else Inr s2)"

text \<open>A character height read from \<^verbatim>\<open>this.props\<close>. \<^verbatim>\<open>repaint\<close> reads it after
  \<^verbatim>\<open>_calculateCharSize\<close>, which leaves it present.\<close>

definition measured :: "real option \<Rightarrow> real" where
  "measured v = (case v of Some h \<Rightarrow> h | None \<Rightarrow> 0)"

definition repaint :: "'c host \<Rightarrow> 'c state \<Rightarrow> 'c result" where
  "repaint env s0 =
     (let (f, s1) =
            (case frame s0 of
               Some f \<Rightarrow> (f, s0)
             | None \<Rightarrow>
                 (let (f, d) = createElement (document s0)
                  in (f, s0\<lparr>document := d, frame := Some f\<rparr>)));
          s2 = s1\<lparr>document := (document s1)[f := (document s1 ! f)\<lparr>className := ''axis''\<rparr>]\<rparr>;
          s3 = s2\<lparr>width := offsetWidth env\<rparr>
      in
      andThen
        (if parentNode (document s3 ! f) = None then
           (case parent s3 of
              None \<Rightarrow> Inl (Error ''Cannot repaint time axis: no parent attached'', s3)
            | Some par \<Rightarrow>
                (case getContainer par of
                   None \<Rightarrow>
                     Inl (Error ''Cannot repaint time axis: parent has no container element'', s3)
                 | Some parentContainer \<Rightarrow>
                     Inr (s3\<lparr>document := appendChild parentContainer f (document s3)\<rparr>)))
         else Inr s3) (\<lambda>s4.
      case parentNode (document s4 ! f) of
        None \<Rightarrow> Inr s4
      | Some p \<Rightarrow>
          andThen (calculateCharSize env s4) (\<lambda>s5.
          let orientation = getOption_orientation s5;
              showMinorLabels = getOption_showMinorLabels s5;
              showMajorLabels = getOption_showMajorLabels s5
          in
          case parent s5 of
            None \<Rightarrow> Inl (TypeError ''Cannot read property height of undefined'', s5)
          | Some par \<Rightarrow>
          let parentHeight = parent_height par;
              minorLabelHeight = (if showMinorLabels then measured (props_minorCharHeight s5) else 0);
              majorLabelHeight = (if showMajorLabels then measured (props_majorCharHeight s5) else 0);
              s6 = s5\<lparr>props_minorLabelHeight := minorLabelHeight,
                      props_majorLabelHeight := majorLabelHeight,
                      height := minorLabelHeight + majorLabelHeight,
                      props_minorLineHeight := parentHeight + minorLabelHeight,
                      props_minorLineWidth := 1,
                      props_majorLineHeight := parentHeight + (minorLabelHeight + majorLabelHeight),
                      props_majorLineWidth := 1\<rparr>;
              beforeChild = nextSibling f (document s6)
          in
          andThen (lift s6 (removeChild p f (document s6))) (\<lambda>d.
          let s7 = s6\<lparr>document := d\<rparr>;
              n = document s7 ! f;
              n1 = (if orientation = ''top''
                    then n\<lparr>style_top := Raw ''0'', style_left := Raw ''0'', style_bottom := CssEmpty,
                           style_width := asSize env, style_height := Px (height s7)\<rparr>
                    else n\<lparr>style_top := CssEmpty, style_bottom := Raw ''0'', style_left := Raw ''0'',
                           style_width := asSize env, style_height := Px (height s7)\<rparr>);
              s8 = s7\<lparr>document := (document s7)[f := n1]\<rparr>
          in
          andThen (repaintLabels env s8) (\<lambda>s9.
          andThen (repaintLine s9) (\<lambda>s10.
          case beforeChild of
            Some b \<Rightarrow>
              andThen (lift s10 (insertBefore p f b (document s10)))
                (\<lambda>d. Inr (s10\<lparr>document := d\<rparr>))
          | None \<Rightarrow> Inr (s10\<lparr>document := appendChild p f (document s10)\<rparr>)))))))"

subsection \<open>Concrete inputs\<close>

definition opts0 :: options where
  "opts0 = \<lparr> opt_orientation = None, opt_showMinorLabels = None, opt_showMajorLabels = None \<rparr>"

text \<open>A freshly constructed axis in a document that holds only the parent's container.\<close>

definition fresh :: "nat state" where
  "fresh = TimeAxis [blank] (Some \<lparr> getContainer = Some 0, parent_height = 50 \<rparr>) opts0"

subsection \<open>The four placing functions as one\<close>

text \<open>
  The four functions \<^verbatim>\<open>_repaintMinorText\<close>, \<^verbatim>\<open>_repaintMajorText\<close>, \<^verbatim>\<open>_repaintMinorLine\<close>
  and \<^verbatim>\<open>_repaintMajorLine\<close> differ in the array they use, the class name they give a
  new element and the style they write. The definitions below describe them by kind; the
  properties part proves that each source function is \<open>placed\<close> at its kind.
  \<open>cls\<close> is the class name of a kind, \<open>paintNode\<close> what is written on the element,
  \<open>freshNode\<close> the element as created.
\<close>

fun cls :: "kind \<Rightarrow> string" where
  "cls majorLines = ''grid vertical major''"
| "cls majorTexts = ''text major''"
| "cls minorLines = ''grid vertical minor''"
| "cls minorTexts = ''text minor''"

fun isText :: "kind \<Rightarrow> bool" where
  "isText majorTexts = True"
| "isText minorTexts = True"
| "isText k = False"

fun paintNode :: "kind \<Rightarrow> 'c state \<Rightarrow> real \<Rightarrow> string \<Rightarrow> string \<Rightarrow> node \<Rightarrow> node" where
  "paintNode minorTexts s x text orientation n =
     (if orientation = ''top''
      then n\<lparr>nodeValue := Some text, style_top := Px (props_minorLabelHeight s),
             style_bottom := CssEmpty, style_left := Px x\<rparr>
      else n\<lparr>nodeValue := Some text, style_top := CssEmpty,
             style_bottom := Px (props_minorLabelHeight s), style_left := Px x\<rparr>)"
| "paintNode majorTexts s x text orientation n =
     (if orientation = ''top''
      then n\<lparr>nodeValue := Some text, style_top := Px 0, style_bottom := CssEmpty, style_left := Px x\<rparr>
      else n\<lparr>nodeValue := Some text, style_top := CssEmpty, style_bottom := Px 0, style_left := Px x\<rparr>)"
| "paintNode minorLines s x text orientation n =
     (if orientation = ''top''
      then n\<lparr>style_top := Px (props_minorLabelHeight s), style_bottom := CssEmpty,
             style_height := Px (props_minorLineHeight s),
             style_left := Px (x - props_minorLineWidth s / 2)\<rparr>
      else n\<lparr>style_top := CssEmpty, style_bottom := Px (props_minorLabelHeight s),
             style_height := Px (props_minorLineHeight s),
             style_left := Px (x - props_minorLineWidth s / 2)\<rparr>)"
| "paintNode majorLines s x text orientation n =
     (if orientation = ''top''
      then n\<lparr>style_top := Px 0, style_bottom := CssEmpty,
             style_left := Px (x - props_majorLineWidth s / 2),
             style_height := Px (props_majorLineHeight s)\<rparr>
      else n\<lparr>style_top := CssEmpty, style_bottom := Px 0,
             style_left := Px (x - props_majorLineWidth s / 2),
             style_height := Px (props_majorLineHeight s)\<rparr>)"

fun freshNode :: "kind \<Rightarrow> string \<Rightarrow> node" where
  "freshNode minorTexts text = blank\<lparr>className := cls minorTexts, nodeValue := Some []\<rparr>"
| "freshNode majorTexts text = blank\<lparr>className := cls majorTexts, nodeValue := Some text\<rparr>"
| "freshNode k text = blank\<lparr>className := cls k\<rparr>"

text \<open>The state after placing one element of kind \<open>k\<close>: the first redundant element
  is reused, or a new element becomes the last child of the frame.\<close>

definition placed :: "kind \<Rightarrow> real \<Rightarrow> string \<Rightarrow> string \<Rightarrow> 'c state \<Rightarrow> 'c state" where
  "placed k x text orientation s =
     (case dom_redundant s k of
        i # rest \<Rightarrow>
          s\<lparr>dom_redundant := (dom_redundant s)(k := rest),
            dom_active := (dom_active s)(k := dom_active s k @ [i]),
            document := (document s)[i := paintNode k s x text orientation (document s ! i)]\<rparr>
      | [] \<Rightarrow>
          (case frame s of
             None \<Rightarrow> s
           | Some f \<Rightarrow>
               s\<lparr>dom_active := (dom_active s)(k := dom_active s k @ [length (document s)]),
                 document :=
                   (document s)[f := (document s ! f)\<lparr>childNodes :=
                                        childNodes (document s ! f) @ [length (document s)]\<rparr>]
                   @ [paintNode k s x text orientation ((freshNode k text)\<lparr>parentNode := Some f\<rparr>)]\<rparr>))"

text \<open>A state in which placing cannot throw: there is a frame, and the redundant
  elements exist and carry a text node where they are labels.\<close>

definition placeable :: "'c state \<Rightarrow> bool" where
  "placeable s = (\<exists>f. frame s = Some f \<and> f < length (document s)
      \<and> (\<forall>k. \<forall>i \<in> set (dom_redundant s k).
            i < length (document s) \<and> (isText k \<longrightarrow> nodeValue (document s ! i) \<noteq> None)))"

text \<open>One placement: the kind, the pixel position and the text. \<open>run\<close> makes the
  placements of a list in order. \<open>tickCmds\<close> lists the placements the loop body makes
  for one tick, \<open>tickXFirst\<close> is the value of \<^verbatim>\<open>xFirstMajorLabel\<close> after it.\<close>

type_synonym cmd = "kind \<times> real \<times> string"

fun exec :: "string \<Rightarrow> cmd \<Rightarrow> 'c state \<Rightarrow> 'c state" where
  "exec orientation (k, x, text) s = placed k x text orientation s"

fun run :: "string \<Rightarrow> cmd list \<Rightarrow> 'c state \<Rightarrow> 'c state" where
  "run orientation [] s = s"
| "run orientation (c # cs) s = run orientation cs (exec orientation c s)"

definition tickCmds :: "'c host \<Rightarrow> conversion \<Rightarrow> bool \<Rightarrow> bool \<Rightarrow> 'c \<Rightarrow> cmd list" where
  "tickCmds env c showMinor showMajor stp =
     (let x = conv_toScreen env c (getCurrent env stp) in
      (if showMinor then [(minorTexts, x, getLabelMinor env stp)] else []) @
      (if isMajor env stp \<and> showMajor
       then (if x > 0 then [(majorTexts, x, getLabelMajor env stp)] else []) @ [(majorLines, x, [])]
       else [(minorLines, x, [])]))"

definition tickXFirst :: "'c host \<Rightarrow> conversion \<Rightarrow> bool \<Rightarrow> 'c \<Rightarrow> real option \<Rightarrow> real option" where
  "tickXFirst env c showMajor stp xf =
     (if isMajor env stp \<and> showMajor \<and> conv_toScreen env c (getCurrent env stp) > 0 \<and> xf = None
      then Some (conv_toScreen env c (getCurrent env stp)) else xf)"

text \<open>The cursor states the loop visits: it follows \<^verbatim>\<open>hasNext\<close> and \<^verbatim>\<open>next\<close> and
  stops at the cap of 1000, as \<open>tickLoop\<close> does.\<close>

function ticks :: "'c host \<Rightarrow> 'c \<Rightarrow> nat \<Rightarrow> 'c list" where
  "ticks env stp n =
     (if hasNext env stp \<and> n < 1000 then stp # ticks env (next' env stp) (n + 1) else [])"
  by pat_completeness auto

termination
  by (relation "measure (\<lambda>(env, stp, n). 1000 - n)") auto

fun xFirstOf :: "'c host \<Rightarrow> conversion \<Rightarrow> bool \<Rightarrow> 'c list \<Rightarrow> real option \<Rightarrow> real option" where
  "xFirstOf env c showMajor [] xf = xf"
| "xFirstOf env c showMajor (t # ts) xf = xFirstOf env c showMajor ts (tickXFirst env c showMajor t xf)"

subsection \<open>The invariant of the element pool\<close>

text \<open>
  The pool of the frame \<open>f\<close> is in order: the children of the frame are distinct
  existing nodes; no element occurs twice in the active and redundant arrays of a kind;
  every element of an array of kind \<open>k\<close> has the class of \<open>k\<close>, is a child of the
  frame and, if it is a label, has a text node; and every child of the frame that has the
  class of a kind is in an array of that kind.
\<close>

definition pool_at :: "nat \<Rightarrow> 'c state \<Rightarrow> bool" where
  "pool_at f s =
     (frame s = Some f \<and> f < length (document s)
        \<and> distinct (childNodes (document s ! f))
        \<and> f \<notin> set (childNodes (document s ! f))
        \<and> (\<forall>i \<in> set (childNodes (document s ! f)). i < length (document s))
        \<and> (\<forall>k. distinct (dom_active s k @ dom_redundant s k))
        \<and> (\<forall>k. \<forall>i \<in> set (dom_active s k @ dom_redundant s k).
              className (document s ! i) = cls k \<and> parentNode (document s ! i) = Some f
              \<and> i \<in> set (childNodes (document s ! f))
              \<and> (isText k \<longrightarrow> nodeValue (document s ! i) \<noteq> None))
        \<and> (\<forall>i \<in> set (childNodes (document s ! f)). \<forall>k.
              className (document s ! i) = cls k \<longrightarrow> i \<in> set (dom_active s k @ dom_redundant s k)))"

definition pool_ok :: "'c state \<Rightarrow> bool" where
  "pool_ok s = (case frame s of None \<Rightarrow> False | Some f \<Rightarrow> pool_at f s)"

text \<open>The positions and texts placed for one kind, and the statement that the active
  elements of a kind carry exactly what a list of placements wrote, in order.\<close>

definition cmdsOf :: "kind \<Rightarrow> cmd list \<Rightarrow> (real \<times> string) list" where
  "cmdsOf k cs = map snd (filter (\<lambda>c. fst c = k) cs)"

definition settled :: "string \<Rightarrow> 'c state \<Rightarrow> kind \<Rightarrow> (real \<times> string) list \<Rightarrow> bool" where
  "settled orientation s k xs =
     list_all2 (\<lambda>i (x, t). paintNode k s x t orientation (document s ! i) = document s ! i)
       (dom_active s k) xs"

text \<open>The frame's node after placements: children are only added, and all added
  children are new nodes.\<close>

definition extends :: "nat \<Rightarrow> node list \<Rightarrow> node list \<Rightarrow> bool" where
  "extends f d d' =
     (length d \<le> length d'
      \<and> (\<exists>new. d' ! f = (d ! f)\<lparr>childNodes := childNodes (d ! f) @ new\<rparr>
                \<and> (\<forall>i \<in> set new. length d \<le> i)))"

text \<open>Detaching a list of elements in order, and the elements the cleanup detaches, in
  the order in which it pops them.\<close>

definition detachAll :: "nat list \<Rightarrow> node list \<Rightarrow> node list" where
  "detachAll is doc = foldl (\<lambda>d elem. detach elem d) doc is"

definition allRedundant :: "'c state \<Rightarrow> nat list" where
  "allRedundant s =
     rev (dom_redundant s majorLines) @ rev (dom_redundant s majorTexts)
       @ rev (dom_redundant s minorLines) @ rev (dom_redundant s minorTexts)"

subsection \<open>One cycle of \<^verbatim>\<open>_repaintLabels\<close>, as a list of placements\<close>

text \<open>
  The parts of \<^verbatim>\<open>_repaintLabels\<close> for a state \<open>s\<close>, the conversion \<open>c\<close> that
  \<^verbatim>\<open>_updateConversion\<close> stores and the range \<open>rng\<close>: the move of the active elements
  to the redundant arrays, the step generator as constructed, the ticks visited, the
  placements of the loop, the cursor and \<^verbatim>\<open>xFirstMajorLabel\<close> after the loop, the
  estimated width of the label of the left edge, the placement of that label, and the
  state before and after the cleanup.
\<close>

definition beginCycle :: "'c state \<Rightarrow> 'c state" where
  "beginCycle s = s\<lparr>dom_redundant := dom_active s, dom_active := (\<lambda>k. [])\<rparr>"

definition newStep :: "'c host \<Rightarrow> 'c state \<Rightarrow> conversion \<Rightarrow> jsval \<Rightarrow> 'c" where
  "newStep env s c rng =
     TimeStep env (newDate (convert env (getProp rng ''start'')))
       (newDate (convert env (getProp rng ''end'')))
       (diffValueOf (conv_toTime env c (orDefault (props_minorCharWidth s) 10 * 5)) (conv_toTime env c 0))"

definition cycleTicks :: "'c host \<Rightarrow> 'c state \<Rightarrow> conversion \<Rightarrow> jsval \<Rightarrow> 'c list" where
  "cycleTicks env s c rng = ticks env (first env (newStep env s c rng)) 0"

definition loopCmds :: "'c host \<Rightarrow> 'c state \<Rightarrow> conversion \<Rightarrow> jsval \<Rightarrow> cmd list" where
  "loopCmds env s c rng =
     concat (map (tickCmds env c (getOption_showMinorLabels s) (getOption_showMajorLabels s))
               (cycleTicks env s c rng))"

definition finalCursor :: "'c host \<Rightarrow> 'c state \<Rightarrow> conversion \<Rightarrow> jsval \<Rightarrow> 'c" where
  "finalCursor env s c rng =
     ((next' env) ^^ length (cycleTicks env s c rng)) (first env (newStep env s c rng))"

definition xFirstMajorLabel :: "'c host \<Rightarrow> 'c state \<Rightarrow> conversion \<Rightarrow> jsval \<Rightarrow> real option" where
  "xFirstMajorLabel env s c rng =
     xFirstOf env c (getOption_showMajorLabels s) (cycleTicks env s c rng) None"

definition widthText :: "'c host \<Rightarrow> 'c state \<Rightarrow> conversion \<Rightarrow> jsval \<Rightarrow> real" where
  "widthText env s c rng =
     real (length (getLabelMajorAt env (finalCursor env s c rng) (conv_toTime env c 0)))
       * orDefault (props_majorCharWidth s) 10 + 10"

definition edgeCmds :: "'c host \<Rightarrow> 'c state \<Rightarrow> conversion \<Rightarrow> jsval \<Rightarrow> cmd list" where
  "edgeCmds env s c rng =
     (if getOption_showMajorLabels s
         \<and> (case xFirstMajorLabel env s c rng of None \<Rightarrow> True
             | Some xf \<Rightarrow> widthText env s c rng < xf)
      then [(majorTexts, 0, getLabelMajorAt env (finalCursor env s c rng) (conv_toTime env c 0))]
      else [])"

definition cycleCmds :: "'c host \<Rightarrow> 'c state \<Rightarrow> conversion \<Rightarrow> jsval \<Rightarrow> cmd list" where
  "cycleCmds env s c rng = loopCmds env s c rng @ edgeCmds env s c rng"

definition cycleDirty :: "'c host \<Rightarrow> 'c state \<Rightarrow> conversion \<Rightarrow> jsval \<Rightarrow> 'c state" where
  "cycleDirty env s c rng =
     run (getOption_orientation s) (edgeCmds env s c rng)
       ((run (getOption_orientation s) (loopCmds env s c rng)
           (beginCycle (s\<lparr>conversion := Some c, step := Some (newStep env s c rng)\<rparr>)))
          \<lparr>step := Some (finalCursor env s c rng)\<rparr>)"

definition cycleResult :: "'c host \<Rightarrow> 'c state \<Rightarrow> conversion \<Rightarrow> jsval \<Rightarrow> 'c state" where
  "cycleResult env s c rng = cleanup (cycleDirty env s c rng)"

text \<open>The pixel position of a tick, the \<^verbatim>\<open>left\<close> a placement writes, and the live
  elements of a kind: the children of the frame with the class of the kind.\<close>

definition pix :: "'c host \<Rightarrow> conversion \<Rightarrow> 'c \<Rightarrow> real" where
  "pix env c t = conv_toScreen env c (getCurrent env t)"

fun leftOf :: "kind \<Rightarrow> 'c state \<Rightarrow> real \<Rightarrow> css" where
  "leftOf majorLines s x = Px (x - props_majorLineWidth s / 2)"
| "leftOf minorLines s x = Px (x - props_minorLineWidth s / 2)"
| "leftOf k s x = Px x"

definition live :: "'c state \<Rightarrow> kind \<Rightarrow> nat list" where
  "live s k =
     (case frame s of
        None \<Rightarrow> []
      | Some f \<Rightarrow> filter (\<lambda>i. className (document s ! i) = cls k) (childNodes (document s ! f)))"

text \<open>The ticks that get a major label in the loop, whether the label of the left edge
  is placed, and the number of calls of the placing function of each kind in a cycle.\<close>

definition inRangeMajor :: "'c host \<Rightarrow> 'c state \<Rightarrow> conversion \<Rightarrow> 'c list \<Rightarrow> 'c list" where
  "inRangeMajor env s c ts =
     filter (\<lambda>t. isMajor env t \<and> getOption_showMajorLabels s \<and> pix env c t > 0) ts"

definition edgeLabelPlaced :: "'c host \<Rightarrow> 'c state \<Rightarrow> conversion \<Rightarrow> jsval \<Rightarrow> bool" where
  "edgeLabelPlaced env s c rng =
     (case inRangeMajor env s c (cycleTicks env s c rng) of
        [] \<Rightarrow> True
      | t # _ \<Rightarrow>
          real (length (getLabelMajorAt env (finalCursor env s c rng) (conv_toTime env c 0)))
            * orDefault (props_majorCharWidth s) 10 + 10 < pix env c t)"

fun emitted :: "'c host \<Rightarrow> 'c state \<Rightarrow> conversion \<Rightarrow> jsval \<Rightarrow> kind \<Rightarrow> nat" where
  "emitted env s c rng minorTexts =
     (if getOption_showMinorLabels s then length (cycleTicks env s c rng) else 0)"
| "emitted env s c rng minorLines =
     length (filter (\<lambda>t. \<not> (isMajor env t \<and> getOption_showMajorLabels s)) (cycleTicks env s c rng))"
| "emitted env s c rng majorLines =
     length (filter (\<lambda>t. isMajor env t \<and> getOption_showMajorLabels s) (cycleTicks env s c rng))"
| "emitted env s c rng majorTexts =
     length (inRangeMajor env s c (cycleTicks env s c rng))
       + (if getOption_showMajorLabels s \<and> edgeLabelPlaced env s c rng then 1 else 0)"

text \<open>The state a call leaves behind, whether it returned or threw.\<close>

definition stateOf :: "'c result \<Rightarrow> 'c state" where
  "stateOf r = (case r of Inl (e, s) \<Rightarrow> s | Inr s \<Rightarrow> s)"

text \<open>The placements of the loop for a list of ticks.\<close>

definition cmdsFor :: "'c host \<Rightarrow> 'c state \<Rightarrow> conversion \<Rightarrow> 'c list \<Rightarrow> cmd list" where
  "cmdsFor env s c ts =
     concat (map (tickCmds env c (getOption_showMinorLabels s) (getOption_showMajorLabels s)) ts)"

subsection \<open>Further concrete inputs\<close>

text \<open>
  A step generator with three ticks at 0, 30 and 60 ms of which the second is major, and
  one that never ends and reports every tick major; a range of 0 to 100 ms shown on 100
  pixels, so that one millisecond is one pixel; an axis whose frame exists and is taken
  offline, as \<^verbatim>\<open>repaint\<close> leaves it when it calls \<^verbatim>\<open>_repaintLabels\<close> for the first
  time; and the same axis with the major labels hidden.
\<close>

definition numOf :: "jsval \<Rightarrow> real" where
  "numOf v = (case v of JNum r \<Rightarrow> r | JDate t \<Rightarrow> real_of_int t | _ \<Rightarrow> 0)"

definition env3 :: "nat host" where
  "env3 = \<lparr> offsetWidth = 100, minorClientHeight = 12, minorClientWidth = 6,
     majorClientHeight = 14, majorClientWidth = 7, asSize = Raw ''100%'',
     convert = numOf,
     Range_conversion = (\<lambda>a b w. \<lparr> scale = w / (numOf b - numOf a), offset = numOf a \<rparr>),
     TimeStep = (\<lambda>a b m. 0),
     first = (\<lambda>c. 0), hasNext = (\<lambda>c. c < 3), next' = Suc,
     getCurrent = (\<lambda>c. int c * 30), isMajor = (\<lambda>c. c = 1),
     getLabelMinor = (\<lambda>c. ''m''), getLabelMajor = (\<lambda>c. ''M''),
     getLabelMajorAt = (\<lambda>c t. if t = Instant 0 then ''LL'' else ''?''),
     fl = (\<lambda>x. x) \<rparr>"

definition envAll :: "nat host" where
  "envAll = env3\<lparr> hasNext := (\<lambda>c. True), getCurrent := (\<lambda>c. int c + 100), isMajor := (\<lambda>c. True) \<rparr>"

definition rng100 :: jsval where
  "rng100 = JObj PlainObject [(''start'', JNum 0), (''end'', JNum 100)]"

definition conv1 :: conversion where
  "conv1 = \<lparr> scale = 1, offset = 0 \<rparr>"

definition offline :: "nat state" where
  "offline = fresh\<lparr>document := [blank, blank\<lparr>className := ''axis''\<rparr>], frame := Some 1,
                   range' := Some rng100, width := 100,
                   props_minorCharWidth := Some 6, props_majorCharWidth := Some 7\<rparr>"

definition hiddenMajor :: "nat state" where
  "hiddenMajor = offline\<lparr>options := opts0\<lparr>opt_showMajorLabels := Some False\<rparr>\<rparr>"

subsection \<open>repaint, in parts\<close>

text \<open>
  The parts of \<^verbatim>\<open>repaint\<close>, each the text of its definition: the frame as found or
  created (\<open>firstFrame\<close>), its class and the width read from it (\<open>named\<close>), the
  attachment to the parent's container (\<open>attached\<close>), the sizes (\<open>sized\<close>), the
  style of the frame (\<open>styled\<close>), the reinsertion of the frame (\<open>online\<close>), and
  everything after the character sizes (\<open>painted\<close>). The properties part proves that
  \<^verbatim>\<open>repaint\<close> is their composition.
\<close>

definition online :: "nat \<Rightarrow> nat \<Rightarrow> nat option \<Rightarrow> 'c state \<Rightarrow> 'c result" where
  "online p f beforeChild s10 =
     (case beforeChild of
            Some b \<Rightarrow>
              andThen (lift s10 (insertBefore p f b (document s10)))
                (\<lambda>d. Inr (s10\<lparr>document := d\<rparr>))
          | None \<Rightarrow> Inr (s10\<lparr>document := appendChild p f (document s10)\<rparr>))"

definition firstFrame :: "'c state \<Rightarrow> nat \<times> 'c state" where
  "firstFrame s0 =
            (case frame s0 of
               Some f \<Rightarrow> (f, s0)
             | None \<Rightarrow>
                 (let (f, d) = createElement (document s0)
                  in (f, s0\<lparr>document := d, frame := Some f\<rparr>)))"

definition named :: "'c host \<Rightarrow> nat \<Rightarrow> 'c state \<Rightarrow> 'c state" where
  "named env f s1 =
     (s1\<lparr>document := (document s1)[f := (document s1 ! f)\<lparr>className := ''axis''\<rparr>]\<rparr>)
       \<lparr>width := offsetWidth env\<rparr>"

definition attached :: "nat \<Rightarrow> 'c state \<Rightarrow> 'c result" where
  "attached f s3 =
        (if parentNode (document s3 ! f) = None then
           (case parent s3 of
              None \<Rightarrow> Inl (Error ''Cannot repaint time axis: no parent attached'', s3)
            | Some par \<Rightarrow>
                (case getContainer par of
                   None \<Rightarrow>
                     Inl (Error ''Cannot repaint time axis: parent has no container element'', s3)
                 | Some parentContainer \<Rightarrow>
                     Inr (s3\<lparr>document := appendChild parentContainer f (document s3)\<rparr>)))
         else Inr s3)"

definition sized :: "bool \<Rightarrow> bool \<Rightarrow> component \<Rightarrow> 'c state \<Rightarrow> 'c state" where
  "sized showMinorLabels showMajorLabels par s5 =
     (let parentHeight = parent_height par;
              minorLabelHeight = (if showMinorLabels then measured (props_minorCharHeight s5) else 0);
              majorLabelHeight = (if showMajorLabels then measured (props_majorCharHeight s5) else 0)
      in s5\<lparr>props_minorLabelHeight := minorLabelHeight,
                      props_majorLabelHeight := majorLabelHeight,
                      height := minorLabelHeight + majorLabelHeight,
                      props_minorLineHeight := parentHeight + minorLabelHeight,
                      props_minorLineWidth := 1,
                      props_majorLineHeight := parentHeight + (minorLabelHeight + majorLabelHeight),
                      props_majorLineWidth := 1\<rparr>)"

definition styled :: "'c host \<Rightarrow> string \<Rightarrow> nat \<Rightarrow> 'c state \<Rightarrow> 'c state" where
  "styled env orientation f s7 =
     (let n = document s7 ! f;
              n1 = (if orientation = ''top''
                    then n\<lparr>style_top := Raw ''0'', style_left := Raw ''0'', style_bottom := CssEmpty,
                           style_width := asSize env, style_height := Px (height s7)\<rparr>
                    else n\<lparr>style_top := CssEmpty, style_bottom := Raw ''0'', style_left := Raw ''0'',
                           style_width := asSize env, style_height := Px (height s7)\<rparr>)
      in s7\<lparr>document := (document s7)[f := n1]\<rparr>)"

definition painted :: "'c host \<Rightarrow> nat \<Rightarrow> nat \<Rightarrow> 'c state \<Rightarrow> 'c result" where
  "painted env f p s5 =
     (case parent s5 of
        None \<Rightarrow> Inl (TypeError ''Cannot read property height of undefined'', s5)
      | Some par \<Rightarrow>
          (let s6 = sized (getOption_showMinorLabels s5) (getOption_showMajorLabels s5) par s5 in
           andThen (lift s6 (removeChild p f (document s6))) (\<lambda>d.
           andThen (repaintLabels env (styled env (getOption_orientation s5) f (s6\<lparr>document := d\<rparr>)))
             (\<lambda>s9.
           andThen (repaintLine s9) (online p f (nextSibling f (document s6)))))))"

text \<open>The fields that neither \<^verbatim>\<open>_repaintLabels\<close> nor \<^verbatim>\<open>_repaintLine\<close> nor the
  reinsertion of the frame writes: the state with the other fields blanked.\<close>

definition cfg :: "'c state \<Rightarrow> 'c state" where
  "cfg s = s\<lparr>document := [], dom_active := (\<lambda>k. []), dom_redundant := (\<lambda>k. []),
             dom_line := None, conversion := None, step := None\<rparr>"

text \<open>The style \<^verbatim>\<open>_repaintLine\<close> writes on the axis line, and the axis line in order:
  if there is one, it is an existing child of the frame with the class of the axis
  line.\<close>

definition lineStyle :: "string \<Rightarrow> real \<Rightarrow> node \<Rightarrow> node" where
  "lineStyle orientation h n =
     (if orientation = ''top'' then n\<lparr>style_top := Px h, style_bottom := CssEmpty\<rparr>
      else n\<lparr>style_top := CssEmpty, style_bottom := Px h\<rparr>)"

definition line_ok :: "nat \<Rightarrow> 'c state \<Rightarrow> bool" where
  "line_ok f s =
     (case dom_line s of
        None \<Rightarrow> True
      | Some l \<Rightarrow> l < length (document s) \<and> l \<noteq> f
           \<and> parentNode (document s ! l) = Some f
           \<and> l \<in> set (childNodes (document s ! f))
           \<and> className (document s ! l) = ''grid horizontal major'')"

text \<open>The element \<^verbatim>\<open>_calculateCharSize\<close> creates to measure a character, and the
  state after each of its two measurements.\<close>

definition probe :: "string \<Rightarrow> node" where
  "probe c = blank\<lparr>className := c, nodeValue := Some ''0''\<rparr>"

definition measuredMinor :: "'c host \<Rightarrow> 'c state \<Rightarrow> 'c state" where
  "measuredMinor env s =
     (if props_minorCharHeight s = None
      then s\<lparr>document := document s @ [probe ''text minor measure''],
             props_minorCharHeight := Some (minorClientHeight env),
             props_minorCharWidth := Some (minorClientWidth env)\<rparr>
      else s)"

definition measuredMajor :: "'c host \<Rightarrow> 'c state \<Rightarrow> 'c state" where
  "measuredMajor env s =
     (if props_majorCharHeight s = None
      then s\<lparr>document := document s @ [probe ''text major measure''],
             props_majorCharHeight := Some (majorClientHeight env),
             props_majorCharWidth := Some (majorClientWidth env)\<rparr>
      else s)"

subsection \<open>A consistent axis\<close>

text \<open>
  The states \<^verbatim>\<open>repaint\<close> is proved on. \<open>hangs p f d\<close>: the node \<open>p\<close> can hold the
  frame \<open>f\<close>, being an existing node other than the frame and not one of its
  children, with distinct children. \<open>hung\<close>: the frame hangs in its parent node, or,
  while it has none, can hang in the container of the parent component.
  \<open>consistentAt\<close>: the pool of the frame is in order, the redundant arrays are empty,
  the axis line is in order and the frame is hung. \<open>consistent\<close>: that, for the frame
  of the state; before the frame exists, the arrays are empty, there is no axis line, and
  the container is an existing node whose children are distinct existing nodes. A new axis
  in a document with its container is consistent.
  \<open>touched\<close> relates two states that differ at most in the fields and nodes a step of
  \<^verbatim>\<open>repaint\<close> before \<^verbatim>\<open>_repaintLabels\<close> may write without moving the frame.
\<close>

definition hangs :: "nat \<Rightarrow> nat \<Rightarrow> node list \<Rightarrow> bool" where
  "hangs p f d = (p < length d \<and> p \<noteq> f \<and> p \<notin> set (childNodes (d ! f))
                   \<and> distinct (childNodes (d ! p)))"

definition hung :: "nat \<Rightarrow> 'c state \<Rightarrow> bool" where
  "hung f s =
     (case parentNode (document s ! f) of
        Some p \<Rightarrow> hangs p f (document s) \<and> f \<in> set (childNodes (document s ! p))
      | None \<Rightarrow>
          (case parent s of
             None \<Rightarrow> True
           | Some par \<Rightarrow>
               (case getContainer par of
                  None \<Rightarrow> True
                | Some c \<Rightarrow> hangs c f (document s) \<and> f \<notin> set (childNodes (document s ! c)))))"

definition consistentAt :: "nat \<Rightarrow> 'c state \<Rightarrow> bool" where
  "consistentAt f s =
     (pool_at f s \<and> dom_redundant s = (\<lambda>k. []) \<and> line_ok f s \<and> hung f s)"

definition consistent :: "'c state \<Rightarrow> bool" where
  "consistent s =
     (case frame s of
        Some f \<Rightarrow> consistentAt f s
      | None \<Rightarrow>
          dom_active s = (\<lambda>k. []) \<and> dom_redundant s = (\<lambda>k. []) \<and> dom_line s = None
          \<and> (case parent s of
                None \<Rightarrow> True
              | Some par \<Rightarrow>
                  (case getContainer par of
                     None \<Rightarrow> True
                   | Some c \<Rightarrow> c < length (document s)
                        \<and> distinct (childNodes (document s ! c))
                        \<and> (\<forall>i \<in> set (childNodes (document s ! c)). i < length (document s)))))"

definition touched :: "nat \<Rightarrow> 'c state \<Rightarrow> 'c state \<Rightarrow> bool" where
  "touched f s s' =
     (frame s' = frame s \<and> parent s' = parent s \<and> dom_active s' = dom_active s
      \<and> dom_redundant s' = dom_redundant s \<and> dom_line s' = dom_line s
      \<and> length (document s) \<le> length (document s')
      \<and> parentNode (document s' ! f) = parentNode (document s ! f)
      \<and> childNodes (document s' ! f) = childNodes (document s ! f)
      \<and> (\<forall>j < length (document s). j \<noteq> f \<longrightarrow> document s' ! j = document s ! j))"

text \<open>The style \<^verbatim>\<open>repaint\<close> writes on the frame.\<close>

definition frameStyle :: "'c host \<Rightarrow> string \<Rightarrow> real \<Rightarrow> node \<Rightarrow> node" where
  "frameStyle env orientation h n =
     (if orientation = ''top''
      then n\<lparr>style_top := Raw ''0'', style_left := Raw ''0'', style_bottom := CssEmpty,
             style_width := asSize env, style_height := Px h\<rparr>
      else n\<lparr>style_top := CssEmpty, style_bottom := Raw ''0'', style_left := Raw ''0'',
             style_width := asSize env, style_height := Px h\<rparr>)"

text \<open>The document after the frame \<open>f\<close> has been removed from its parent node
  \<open>p\<close>.\<close>

definition offlineDoc :: "nat \<Rightarrow> nat \<Rightarrow> node list \<Rightarrow> node list" where
  "offlineDoc p f d =
     d[p := (d ! p)\<lparr>childNodes := remove1 f (childNodes (d ! p))\<rparr>,
       f := (d ! f)\<lparr>parentNode := None\<rparr>]"

text \<open>
  \<open>dressed\<close>: the frame and the sizes are as \<^verbatim>\<open>repaint\<close> writes them before it calls
  \<^verbatim>\<open>_repaintLabels\<close>, so that writing them again changes nothing. \<open>ready\<close>: the state
  in which \<^verbatim>\<open>repaint\<close> calls \<^verbatim>\<open>_repaintLabels\<close>: the frame is out of its parent
  \<open>p\<close>, whose children were \<open>cs\<close>; pool and line are in order; the frame is dressed.
\<close>

definition dressed :: "'c host \<Rightarrow> nat \<Rightarrow> component \<Rightarrow> 'c state \<Rightarrow> bool" where
  "dressed env f par s =
     (parent s = Some par \<and> width s = offsetWidth env
      \<and> props_minorCharHeight s \<noteq> None \<and> props_majorCharHeight s \<noteq> None
      \<and> sized (getOption_showMinorLabels s) (getOption_showMajorLabels s) par s = s
      \<and> className (document s ! f) = ''axis''
      \<and> frameStyle env (getOption_orientation s) (height s) (document s ! f) = document s ! f)"

definition ready :: "'c host \<Rightarrow> nat \<Rightarrow> nat \<Rightarrow> nat list \<Rightarrow> component \<Rightarrow> 'c state \<Rightarrow> bool" where
  "ready env f p cs par s =
     (pool_at f s \<and> line_ok f s \<and> dom_redundant s = (\<lambda>k. [])
      \<and> p < length (document s) \<and> p \<noteq> f \<and> p \<notin> set (childNodes (document s ! f))
      \<and> parentNode (document s ! f) = None
      \<and> childNodes (document s ! p) = remove1 f cs \<and> f \<in> set cs \<and> distinct cs
      \<and> dressed env f par s)"

text \<open>A range for which \<^verbatim>\<open>_updateConversion\<close> does not throw: its \<^verbatim>\<open>conversion\<close>
  property is a function or falsy. And an axis whose frame, if it is attached, is the last
  child of its parent node.\<close>

definition convertible :: "jsval \<Rightarrow> bool" where
  "convertible rng =
     (case getProp rng ''conversion'' of JFun g \<Rightarrow> True | v \<Rightarrow> \<not> truthy v)"

definition lastChild :: "'c state \<Rightarrow> bool" where
  "lastChild s =
     (case frame s of
        None \<Rightarrow> True
      | Some f \<Rightarrow>
          (case parentNode (document s ! f) of
             None \<Rightarrow> True
           | Some p \<Rightarrow> nextInList f (childNodes (document s ! p)) = None))"

subsection \<open>Concrete inputs for \<^verbatim>\<open>repaint\<close>\<close>

text \<open>
  The three-tick generator cut down to its first tick; the offline axis with the major
  glyph width unmeasured, and with it measured as 0; the new axis with the range of 0 to
  100 ms set; and an axis as a repaint with labels shown leaves it (container, frame and
  axis line, the frame attached) on which both kinds of labels have been hidden since.
\<close>

definition envOne :: "nat host" where
  "envOne = env3\<lparr> hasNext := (\<lambda>c. c < 1) \<rparr>"

definition unmeasured :: "nat state" where
  "unmeasured = offline\<lparr>props_majorCharWidth := None\<rparr>"

definition zeroWidth :: "nat state" where
  "zeroWidth = offline\<lparr>props_majorCharWidth := Some 0\<rparr>"

definition ranged :: "nat state" where
  "ranged = fresh\<lparr>range' := Some rng100\<rparr>"

definition paintedHidden :: "nat state" where
  "paintedHidden = ranged
     \<lparr>document := [blank\<lparr>childNodes := [1]\<rparr>,
                   blank\<lparr>className := ''axis'', parentNode := Some 0, childNodes := [2]\<rparr>,
                   blank\<lparr>className := ''grid horizontal major'', parentNode := Some 1\<rparr>],
      frame := Some 1, dom_line := Some 2,
      props_minorCharHeight := Some 12, props_minorCharWidth := Some 6,
      props_majorCharHeight := Some 14, props_majorCharWidth := Some 7,
      options := opts0\<lparr>opt_showMinorLabels := Some False, opt_showMajorLabels := Some False\<rparr>,
      width := 100\<rparr>"

subsection \<open>Concrete inputs for the round trips\<close>











section \<open>Properties\<close>

subsection \<open>setRange\<close>

text \<open>
  C2. The claim holds of what \<^verbatim>\<open>setRange\<close> documents and not of what it does: the
  object \<^verbatim>\<open>{start: 0, end: 5}\<close> exposes both fields (its start is the epoch), and
  \<^verbatim>\<open>setRange\<close> throws the \<^verbatim>\<open>TypeError\<close> whose message asks for an object containing
  start and end, leaving the axis as it was; the same object with the start one
  millisecond later is stored. The guard tests the fields for truthiness where it means
  their presence.
\<close>

theorem setRange_zero_start_throws:
  "exposes (JObj PlainObject [(''start'', JNum 0), (''end'', JNum 5)]) ''start''
   \<and> exposes (JObj PlainObject [(''start'', JNum 0), (''end'', JNum 5)]) ''end''
   \<and> setRange (JObj PlainObject [(''start'', JNum 0), (''end'', JNum 5)]) fresh
       = Inl (TypeError ''Range must be an instance of Range, or an object containing start and end.'', fresh)
   \<and> setRange (JObj PlainObject [(''start'', JNum 1), (''end'', JNum 5)]) fresh
       = Inr (fresh\<lparr>range' := Some (JObj PlainObject [(''start'', JNum 1), (''end'', JNum 5)])\<rparr>)"
  by (simp add: setRange_def)

theorem setRange_zero_start_throws_witness:
  "isl (setRange (JObj PlainObject [(''start'', JNum 0), (''end'', JNum 5)]) fresh)
   \<and> \<not> isl (setRange (JObj PlainObject [(''start'', JNum 1), (''end'', JNum 5)]) fresh)"
  using setRange_zero_start_throws by simp

subsection \<open>toTime and toScreen\<close>

text \<open>
  C10. On a freshly constructed axis, and still after a \<^verbatim>\<open>setRange\<close>, the stored
  conversion is \<^verbatim>\<open>null\<close>: \<^verbatim>\<open>toTime\<close> and \<^verbatim>\<open>toScreen\<close> neither return a value nor
  raise the error \<^verbatim>\<open>No range configured\<close>; both throw the \<^verbatim>\<open>TypeError\<close> of a property
  read on \<^verbatim>\<open>null\<close>.
\<close>

theorem conversion_null_before_repaint:
  fixes s :: "'c state" and env :: "'c host"
  shows
  "toTime env (TimeAxis doc par opts :: 'c state) x = Inl (TypeError ''Cannot read property scale of null'')
   \<and> toScreen env (TimeAxis doc par opts :: 'c state) t = Inl (TypeError ''Cannot read property offset of null'')
   \<and> (setRange rng (TimeAxis doc par opts) = Inr s \<longrightarrow>
        toTime env s x = Inl (TypeError ''Cannot read property scale of null'')
        \<and> toScreen env s t = Inl (TypeError ''Cannot read property offset of null''))"
  by (auto simp: toTime_def toScreen_def TimeAxis_def setRange_def split: if_splits)

theorem conversion_null_before_repaint_witness:
  "setRange (JObj PlainObject [(''start'', JNum 1), (''end'', JNum 2)]) fresh
     = Inr (fresh\<lparr>range' := Some (JObj PlainObject [(''start'', JNum 1), (''end'', JNum 2)])\<rparr>)
   \<and> toTime env3 (fresh\<lparr>range' := Some (JObj PlainObject [(''start'', JNum 1), (''end'', JNum 2)])\<rparr>) 0
       = Inl (TypeError ''Cannot read property scale of null'')
   \<and> toScreen env3 (fresh\<lparr>range' := Some (JObj PlainObject [(''start'', JNum 1), (''end'', JNum 2)])\<rparr>) 0
       = Inl (TypeError ''Cannot read property offset of null'')"
  using conversion_null_before_repaint
    [where doc = "[blank]" and par = "Some \<lparr> getContainer = Some 0, parent_height = 50 \<rparr>"
       and opts = opts0 and x = 0 and t = 0 and env = env3
       and rng = "JObj PlainObject [(''start'', JNum 1), (''end'', JNum 2)]"
       and s = "fresh\<lparr>range' := Some (JObj PlainObject [(''start'', JNum 1), (''end'', JNum 2)])\<rparr>"]
  by (simp add: setRange_def fresh_def)

subsection \<open>The placing functions\<close>

lemma appendChild_fresh:
  assumes "f < length doc" and "parentNode n = None"
  shows "appendChild f (length doc) (doc @ [n]) =
         doc[f := (doc ! f)\<lparr>childNodes := childNodes (doc ! f) @ [length doc]\<rparr>] @ [n\<lparr>parentNode := Some f\<rparr>]"
  using assms by (simp add: appendChild_def detach_def Let_def nth_append list_update_append)

lemma update_last: "n = length xs \<Longrightarrow> (xs @ [a])[n := b] = xs @ [b]"
  by (simp add: list_update_append)

lemma nth_last_upd: "f < length doc \<Longrightarrow> (doc[f := a] @ [b]) ! length doc = b"
  by (simp add: nth_append)

lemmas create_simps = createElement_def andThen_def Let_def appendChild_fresh update_last
  nth_last_upd blank_def

lemma repaintMinorText_placed:
  assumes "placeable s"
  shows "repaintMinorText x text orientation s = Inr (placed minorTexts x text orientation s)"
proof -
  from assms obtain f where f: "frame s = Some f" "f < length (document s)"
    and tv: "\<forall>i \<in> set (dom_redundant s minorTexts). nodeValue (document s ! i) \<noteq> None"
    unfolding placeable_def by (metis isText.simps(2))
  show ?thesis
  proof (cases "dom_redundant s minorTexts")
    case Nil
    then show ?thesis using f
      by (simp add: repaintMinorText_def placed_def create_simps)
  next
    case (Cons i rest)
    with tv have "nodeValue (document s ! i) \<noteq> None" by simp
    with Cons show ?thesis
      by (auto simp: repaintMinorText_def placed_def andThen_def Let_def)
  qed
qed

lemma repaintMajorText_placed:
  assumes "placeable s"
  shows "repaintMajorText x text orientation s = Inr (placed majorTexts x text orientation s)"
proof -
  from assms obtain f where f: "frame s = Some f" "f < length (document s)"
    and tv: "\<forall>i \<in> set (dom_redundant s majorTexts). nodeValue (document s ! i) \<noteq> None"
    unfolding placeable_def by (metis isText.simps(1))
  show ?thesis
  proof (cases "dom_redundant s majorTexts")
    case Nil
    then show ?thesis using f
      by (simp add: repaintMajorText_def placed_def create_simps)
  next
    case (Cons i rest)
    with tv have "nodeValue (document s ! i) \<noteq> None" by simp
    with Cons show ?thesis
      by (auto simp: repaintMajorText_def placed_def andThen_def Let_def)
  qed
qed

lemma repaintMinorLine_placed:
  assumes "placeable s"
  shows "repaintMinorLine x orientation s = Inr (placed minorLines x t orientation s)"
proof -
  from assms obtain f where f: "frame s = Some f" "f < length (document s)"
    unfolding placeable_def by blast
  show ?thesis
  proof (cases "dom_redundant s minorLines")
    case Nil
    then show ?thesis using f
      by (simp add: repaintMinorLine_def placed_def create_simps)
  next
    case (Cons i rest)
    then show ?thesis
      by (auto simp: repaintMinorLine_def placed_def andThen_def Let_def)
  qed
qed

lemma repaintMajorLine_placed:
  assumes "placeable s"
  shows "repaintMajorLine x orientation s = Inr (placed majorLines x t orientation s)"
proof -
  from assms obtain f where f: "frame s = Some f" "f < length (document s)"
    unfolding placeable_def by blast
  show ?thesis
  proof (cases "dom_redundant s majorLines")
    case Nil
    then show ?thesis using f
      by (simp add: repaintMajorLine_def placed_def create_simps)
  next
    case (Cons i rest)
    then show ?thesis
      by (auto simp: repaintMajorLine_def placed_def andThen_def Let_def)
  qed
qed

declare ticks.simps [simp del]

declare tickLoop.simps [simp del]

lemma placed_fields [simp]:
  "frame (placed k x t orientation s) = frame s"
  "options (placed k x t orientation s) = options s"
  "conversion (placed k x t orientation s) = conversion s"
  "parent (placed k x t orientation s) = parent s"
  "dom_line (placed k x t orientation s) = dom_line s"
  "props_minorCharHeight (placed k x t orientation s) = props_minorCharHeight s"
  "props_minorCharWidth (placed k x t orientation s) = props_minorCharWidth s"
  "props_majorCharHeight (placed k x t orientation s) = props_majorCharHeight s"
  "props_majorCharWidth (placed k x t orientation s) = props_majorCharWidth s"
  "props_minorLabelHeight (placed k x t orientation s) = props_minorLabelHeight s"
  "props_majorLabelHeight (placed k x t orientation s) = props_majorLabelHeight s"
  "props_minorLineHeight (placed k x t orientation s) = props_minorLineHeight s"
  "props_minorLineWidth (placed k x t orientation s) = props_minorLineWidth s"
  "props_majorLineHeight (placed k x t orientation s) = props_majorLineHeight s"
  "props_majorLineWidth (placed k x t orientation s) = props_majorLineWidth s"
  "width (placed k x t orientation s) = width s"
  "height (placed k x t orientation s) = height s"
  "range' (placed k x t orientation s) = range' s"
  "step (placed k x t orientation s) = step s"
  by (simp_all add: placed_def split: list.splits option.splits)

lemma getOption_placed [simp]:
  "getOption_showMinorLabels (placed k x t orientation s) = getOption_showMinorLabels s"
  "getOption_showMajorLabels (placed k x t orientation s) = getOption_showMajorLabels s"
  "getOption_orientation (placed k x t orientation s) = getOption_orientation s"
  by (simp_all add: getOption_showMinorLabels_def getOption_showMajorLabels_def
        getOption_orientation_def)

lemma nodeValue_paintNode:
  "nodeValue (paintNode k s x t orientation n) = (if isText k then Some t else nodeValue n)"
  by (cases k) simp_all

lemma length_placed:
  "length (document s) \<le> length (document (placed k x t orientation s))"
  by (simp add: placed_def split: list.splits option.splits)

lemma placeable_placed:
  assumes "placeable s"
  shows "placeable (placed k x t orientation s)"
proof -
  from assms obtain f where f: "frame s = Some f" "f < length (document s)"
    and r: "\<And>k i. i \<in> set (dom_redundant s k) \<Longrightarrow>
              i < length (document s) \<and> (isText k \<longrightarrow> nodeValue (document s ! i) \<noteq> None)"
    unfolding placeable_def by blast
  show ?thesis
  proof (cases "dom_redundant s k")
    case Nil
    then have d: "document (placed k x t orientation s) =
        (document s)[f := (document s ! f)\<lparr>childNodes := childNodes (document s ! f) @ [length (document s)]\<rparr>]
          @ [paintNode k s x t orientation ((freshNode k t)\<lparr>parentNode := Some f\<rparr>)]"
      and rr: "dom_redundant (placed k x t orientation s) = dom_redundant s"
      using f by (simp_all add: placed_def)
    show ?thesis unfolding placeable_def
    proof (intro exI conjI allI ballI)
      show "frame (placed k x t orientation s) = Some f" using f by simp
      show "f < length (document (placed k x t orientation s))" using f d by simp
    next
      fix k' i assume "i \<in> set (dom_redundant (placed k x t orientation s) k')"
      then have i: "i \<in> set (dom_redundant s k')" by (simp add: rr)
      from r[OF i] show "i < length (document (placed k x t orientation s))" by (simp add: d)
      from r[OF i] show "isText k' \<longrightarrow> nodeValue (document (placed k x t orientation s) ! i) \<noteq> None"
        using f by (cases "i = f") (simp_all add: d nth_append)
    qed
  next
    case (Cons j rest)
    then have d: "document (placed k x t orientation s) =
        (document s)[j := paintNode k s x t orientation (document s ! j)]"
      and rr: "dom_redundant (placed k x t orientation s) = (dom_redundant s)(k := rest)"
      by (simp_all add: placed_def)
    show ?thesis unfolding placeable_def
    proof (intro exI conjI allI ballI)
      show "frame (placed k x t orientation s) = Some f" using f by simp
      show "f < length (document (placed k x t orientation s))" using f d by simp
    next
      fix k' i assume "i \<in> set (dom_redundant (placed k x t orientation s) k')"
      then have i: "i \<in> set (dom_redundant s k')"
        using Cons by (cases "k' = k") (simp_all add: rr)
      from r[OF i] show "i < length (document (placed k x t orientation s))" by (simp add: d)
      from r[OF i] show "isText k' \<longrightarrow> nodeValue (document (placed k x t orientation s) ! i) \<noteq> None"
        by (cases "i = j") (simp_all add: d nodeValue_paintNode)
    qed
  qed
qed

lemma placeable_run: "placeable s \<Longrightarrow> placeable (run orientation cs s)"
  by (induction cs arbitrary: s) (auto simp: placeable_placed)

lemma run_append: "run orientation (cs @ ds) s = run orientation ds (run orientation cs s)"
  by (induction cs arbitrary: s) auto

lemma run_fields [simp]:
  "frame (run orientation cs s) = frame s"
  "options (run orientation cs s) = options s"
  "conversion (run orientation cs s) = conversion s"
  "getOption_showMinorLabels (run orientation cs s) = getOption_showMinorLabels s"
  "getOption_showMajorLabels (run orientation cs s) = getOption_showMajorLabels s"
  by (induction cs arbitrary: s) auto

lemma tickBody_run:
  assumes "placeable s" and "conversion s = Some c"
  shows "tickBody env orientation stp xf s =
           Inr (run orientation
                  (tickCmds env c (getOption_showMinorLabels s) (getOption_showMajorLabels s) stp) s,
                tickXFirst env c (getOption_showMajorLabels s) stp xf)"
proof -
  let ?x = "conv_toScreen env c (getCurrent env stp)"
  let ?s1 = "placed minorTexts ?x (getLabelMinor env stp) orientation s"
  have p1: "placeable ?s1" using assms(1) by (rule placeable_placed)
  have p2: "placeable (placed majorTexts ?x (getLabelMajor env stp) orientation s)"
    using assms(1) by (rule placeable_placed)
  have p3: "placeable (placed majorTexts ?x (getLabelMajor env stp) orientation ?s1)"
    using p1 by (rule placeable_placed)
  show ?thesis
    using assms
    by (simp add: tickBody_def tickCmds_def tickXFirst_def toScreen_def lift_def andThen_def Let_def
          repaintMinorText_placed repaintMajorText_placed
          repaintMinorLine_placed[where t="[]"] repaintMajorLine_placed[where t="[]"] p1 p2 p3)
qed

lemma tickLoop_run:
  assumes "placeable s" and "conversion s = Some c"
  shows "tickLoop env orientation stp n xf s =
           Inr (run orientation
                  (concat (map (tickCmds env c (getOption_showMinorLabels s) (getOption_showMajorLabels s))
                             (ticks env stp n))) s,
                ((next' env) ^^ length (ticks env stp n)) stp,
                xFirstOf env c (getOption_showMajorLabels s) (ticks env stp n) xf)"
  using assms
proof (induction env stp n arbitrary: xf s rule: ticks.induct)
  case (1 env stp n)
  show ?case
  proof (cases "hasNext env stp \<and> n < 1000")
    case False
    have t: "ticks env stp n = []"
      by (subst ticks.simps) (rule if_not_P[OF False])
    have "tickLoop env orientation stp n xf s = Inr (s, stp, xf)"
      by (subst tickLoop.simps) (rule if_not_P[OF False])
    then show ?thesis by (simp add: t)
  next
    case True
    let ?cs = "tickCmds env c (getOption_showMinorLabels s) (getOption_showMajorLabels s) stp"
    have pl: "placeable (run orientation ?cs s)" using "1.prems"(1) by (rule placeable_run)
    have cv: "conversion (run orientation ?cs s) = Some c" using "1.prems"(2) by simp
    note ih = "1.IH"[OF True pl cv]
    have t: "ticks env stp n = stp # ticks env (next' env stp) (n + 1)"
      by (subst ticks.simps) (rule if_P[OF True])
    have "tickLoop env orientation stp n xf s =
            andThen (tickBody env orientation stp xf s)
              (\<lambda>(s3, xf). tickLoop env orientation (next' env stp) (n + 1) xf s3)"
      by (subst tickLoop.simps) (rule if_P[OF True])
    then show ?thesis
      using ih[of "tickXFirst env c (getOption_showMajorLabels s) stp xf"]
      by (simp add: t tickBody_run[OF "1.prems"] andThen_def run_append funpow_swap1)
  qed
qed

lemma cls_inj [simp]: "cls k = cls k' \<longleftrightarrow> k = k'"
  by (cases k; cases k') simp_all

lemma paintNode_keeps [simp]:
  "className (paintNode k s x t orientation n) = className n"
  "parentNode (paintNode k s x t orientation n) = parentNode n"
  "childNodes (paintNode k s x t orientation n) = childNodes n"
  "style_width (paintNode k s x t orientation n) = style_width n"
  by (cases k; simp)+

lemma paintNode_idem [simp]:
  "paintNode k s x t orientation (paintNode k s x t orientation n) = paintNode k s x t orientation n"
  by (cases k) simp_all

lemma paintNode_placed [simp]:
  "paintNode k' (placed k x t orientation s) = paintNode k' s"
  by (intro ext, case_tac k') simp_all

subsection \<open>The pool invariant is kept by placements\<close>

lemma pool_atD:
  assumes "pool_at f s"
  shows "frame s = Some f" and "f < length (document s)"
    and "distinct (childNodes (document s ! f))"
    and "f \<notin> set (childNodes (document s ! f))"
    and "\<And>i. i \<in> set (childNodes (document s ! f)) \<Longrightarrow> i < length (document s)"
    and "\<And>k. distinct (dom_active s k @ dom_redundant s k)"
    and "\<And>k i. i \<in> set (dom_active s k @ dom_redundant s k) \<Longrightarrow>
              className (document s ! i) = cls k \<and> parentNode (document s ! i) = Some f
              \<and> i \<in> set (childNodes (document s ! f))
              \<and> (isText k \<longrightarrow> nodeValue (document s ! i) \<noteq> None)"
    and "\<And>i k. i \<in> set (childNodes (document s ! f)) \<Longrightarrow> className (document s ! i) = cls k
              \<Longrightarrow> i \<in> set (dom_active s k @ dom_redundant s k)"
  using assms unfolding pool_at_def by blast+

lemma pool_at_placeable:
  assumes "pool_at f s"
  shows "placeable s"
proof -
  have "\<forall>k. \<forall>i \<in> set (dom_redundant s k).
          i < length (document s) \<and> (isText k \<longrightarrow> nodeValue (document s ! i) \<noteq> None)"
  proof (intro allI ballI)
    fix k i assume "i \<in> set (dom_redundant s k)"
    then have i: "i \<in> set (dom_active s k @ dom_redundant s k)" by simp
    from pool_atD(7)[OF assms i] pool_atD(5)[OF assms, of i]
    show "i < length (document s) \<and> (isText k \<longrightarrow> nodeValue (document s ! i) \<noteq> None)"
      by simp
  qed
  with pool_atD(1,2)[OF assms] show ?thesis unfolding placeable_def by simp
qed

lemma pool_okE:
  assumes "pool_ok s"
  obtains f where "pool_at f s"
  using assms unfolding pool_ok_def by (cases "frame s") auto

lemma pool_okI: "pool_at f s \<Longrightarrow> pool_ok s"
  unfolding pool_ok_def using pool_atD(1)[of f s] by simp

lemma pool_ok_placeable: "pool_ok s \<Longrightarrow> placeable s"
  using pool_at_placeable by (auto elim: pool_okE)

lemma freshNode_fields [simp]:
  "className (freshNode k t) = cls k"
  "isText k \<Longrightarrow> nodeValue (freshNode k t) \<noteq> None"
  by (cases k; simp add: blank_def)+

text \<open>the two shapes of placed\<close>

lemma placed_reuse:
  assumes "dom_redundant s k = i # rest"
  shows "document (placed k x t orientation s) = (document s)[i := paintNode k s x t orientation (document s ! i)]"
    and "dom_redundant (placed k x t orientation s) = (dom_redundant s)(k := rest)"
    and "dom_active (placed k x t orientation s) = (dom_active s)(k := dom_active s k @ [i])"
  using assms by (simp_all add: placed_def)

lemma placed_create:
  assumes "dom_redundant s k = []" and "frame s = Some f"
  shows "document (placed k x t orientation s) =
           (document s)[f := (document s ! f)\<lparr>childNodes := childNodes (document s ! f) @ [length (document s)]\<rparr>]
             @ [paintNode k s x t orientation ((freshNode k t)\<lparr>parentNode := Some f\<rparr>)]"
    and "dom_redundant (placed k x t orientation s) = dom_redundant s"
    and "dom_active (placed k x t orientation s) = (dom_active s)(k := dom_active s k @ [length (document s)])"
  using assms by (simp_all add: placed_def)

lemma pool_at_placed:
  assumes pa: "pool_at f s"
  shows "pool_at f (placed k x t orientation s)"
proof -
  let ?s' = "placed k x t orientation s"
  let ?d = "document s"
  note f = pool_atD(1,2)[OF pa]
  note dc = pool_atD(3)[OF pa]
  note fc = pool_atD(4)[OF pa]
  note cb = pool_atD(5)[OF pa]
  note dl = pool_atD(6)[OF pa]
  note el = pool_atD(7)[OF pa]
  note ch = pool_atD(8)[OF pa]
  have elf: "\<And>k i. i \<in> set (dom_active s k @ dom_redundant s k) \<Longrightarrow> i \<noteq> f \<and> i < length ?d"
    using el fc cb by blast
  show ?thesis
  proof (cases "dom_redundant s k")
    case (Cons j rest)
    note r = placed_reuse[OF Cons, of x t orientation]
    have jin: "j \<in> set (dom_active s k @ dom_redundant s k)" using Cons by simp
    have jf: "j \<noteq> f" "j < length ?d" using elf[OF jin] by simp_all
    have nodef: "document ?s' ! f = ?d ! f" using jf by (simp add: r)
    have len: "length (document ?s') = length ?d" by (simp add: r)
    have cn: "\<And>i. className (document ?s' ! i) = className (?d ! i)"
      by (case_tac "i = j") (simp_all add: r jf)
    have pn: "\<And>i. parentNode (document ?s' ! i) = parentNode (?d ! i)"
      by (case_tac "i = j") (simp_all add: r jf)
    have nv: "\<And>i. nodeValue (?d ! i) \<noteq> None \<Longrightarrow> nodeValue (document ?s' ! i) \<noteq> None"
      by (case_tac "i = j") (simp_all add: r jf nodeValue_paintNode)
    have sets: "\<And>k'. set (dom_active ?s' k' @ dom_redundant ?s' k') = set (dom_active s k' @ dom_redundant s k')"
      using Cons by (case_tac "k' = k") (auto simp: r)
    have dist: "\<And>k'. distinct (dom_active ?s' k' @ dom_redundant ?s' k')"
      using dl[of k] dl Cons by (case_tac "k' = k") (auto simp: r)
    show ?thesis unfolding pool_at_def
    proof (intro conjI allI ballI impI)
      show "frame ?s' = Some f" using f by simp
      show "f < length (document ?s')" using f len by simp
      show "distinct (childNodes (document ?s' ! f))" using dc by (simp add: nodef)
      show "f \<notin> set (childNodes (document ?s' ! f))" using fc by (simp add: nodef)
    next
      fix i assume "i \<in> set (childNodes (document ?s' ! f))"
      then show "i < length (document ?s')" using cb by (simp add: nodef len)
    next
      fix k' show "distinct (dom_active ?s' k' @ dom_redundant ?s' k')" by (rule dist)
    next
      fix k' i assume "i \<in> set (dom_active ?s' k' @ dom_redundant ?s' k')"
      then have i: "i \<in> set (dom_active s k' @ dom_redundant s k')" by (simp only: sets)
      show "className (document ?s' ! i) = cls k'" using el[OF i] by (simp add: cn)
      show "parentNode (document ?s' ! i) = Some f" using el[OF i] by (simp add: pn)
      show "i \<in> set (childNodes (document ?s' ! f))" using el[OF i] by (simp add: nodef)
      assume "isText k'"
      then show "nodeValue (document ?s' ! i) \<noteq> None" using el[OF i] nv by blast
    next
      fix i k' assume "i \<in> set (childNodes (document ?s' ! f))"
        and "className (document ?s' ! i) = cls k'"
      then have "i \<in> set (childNodes (?d ! f))" "className (?d ! i) = cls k'"
        by (simp_all add: nodef cn)
      then show "i \<in> set (dom_active ?s' k' @ dom_redundant ?s' k')"
        using ch by (simp only: sets)
    qed
  next
    case Nil
    note r = placed_create[OF Nil f(1), of x t orientation]
    let ?n = "length ?d"
    have nodef: "childNodes (document ?s' ! f) = childNodes (?d ! f) @ [?n]"
      using f by (simp add: r nth_append)
    have old: "\<And>i. i < ?n \<Longrightarrow> i \<noteq> f \<Longrightarrow> document ?s' ! i = ?d ! i"
      by (simp add: r nth_append)
    have new: "document ?s' ! ?n = paintNode k s x t orientation ((freshNode k t)\<lparr>parentNode := Some f\<rparr>)"
      by (simp add: r nth_append)
    have len: "length (document ?s') = Suc ?n" by (simp add: r)
    have nnew: "\<And>k'. ?n \<notin> set (dom_active s k' @ dom_redundant s k')"
      using elf by blast
    have nch: "?n \<notin> set (childNodes (?d ! f))" using cb by blast
    have act: "\<And>k'. dom_active ?s' k' @ dom_redundant ?s' k' =
                  (if k' = k then dom_active s k @ [?n] @ dom_redundant s k
                   else dom_active s k' @ dom_redundant s k')"
      using Nil by (simp add: r)
    have mem: "\<And>k' i. i \<in> set (dom_active ?s' k' @ dom_redundant ?s' k') \<Longrightarrow> i \<noteq> ?n
                 \<Longrightarrow> i \<in> set (dom_active s k' @ dom_redundant s k')"
      by (simp add: act split: if_splits)
    have memn: "\<And>k'. ?n \<in> set (dom_active ?s' k' @ dom_redundant ?s' k') \<Longrightarrow> k' = k"
      using nnew by (simp add: act split: if_splits)
    show ?thesis unfolding pool_at_def
    proof (intro conjI allI ballI impI)
      show "frame ?s' = Some f" using f by simp
      show "f < length (document ?s')" using f len by simp
      show "distinct (childNodes (document ?s' ! f))" using dc nch by (simp add: nodef)
      show "f \<notin> set (childNodes (document ?s' ! f))" using fc f by (simp add: nodef)
    next
      fix i assume "i \<in> set (childNodes (document ?s' ! f))"
      then show "i < length (document ?s')" using cb len by (auto simp: nodef less_Suc_eq)
    next
      fix k' show "distinct (dom_active ?s' k' @ dom_redundant ?s' k')"
        using dl[of k'] nnew[of k'] Nil by (auto simp: act)
    next
      fix k' i assume i: "i \<in> set (dom_active ?s' k' @ dom_redundant ?s' k')"
      show "className (document ?s' ! i) = cls k'"
      proof (cases "i = ?n")
        case True
        then have "k' = k" using i memn by simp
        then show ?thesis using True by (simp add: new)
      next
        case False
        from mem[OF i False] show ?thesis using el elf old by metis
      qed
      show "parentNode (document ?s' ! i) = Some f"
      proof (cases "i = ?n")
        case True then show ?thesis by (simp add: new)
      next
        case False
        from mem[OF i False] show ?thesis using el elf old by metis
      qed
      show "i \<in> set (childNodes (document ?s' ! f))"
      proof (cases "i = ?n")
        case True then show ?thesis by (simp add: nodef)
      next
        case False
        from mem[OF i False] show ?thesis using el by (simp add: nodef)
      qed
      assume tx: "isText k'"
      show "nodeValue (document ?s' ! i) \<noteq> None"
      proof (cases "i = ?n")
        case True
        then have "k' = k" using i memn by simp
        then show ?thesis using True tx by (simp add: new nodeValue_paintNode)
      next
        case False
        from mem[OF i False] show ?thesis using el elf old tx by metis
      qed
    next
      fix i k' assume i: "i \<in> set (childNodes (document ?s' ! f))"
        and c: "className (document ?s' ! i) = cls k'"
      show "i \<in> set (dom_active ?s' k' @ dom_redundant ?s' k')"
      proof (cases "i = ?n")
        case True
        then have "k' = k" using c by (simp add: new)
        then show ?thesis using True by (simp add: act)
      next
        case False
        then have ic: "i \<in> set (childNodes (?d ! f))" using i by (simp add: nodef)
        then have "i < ?n" "i \<noteq> f" using cb fc by auto
        then have "className (?d ! i) = cls k'" using c old by simp
        from ch[OF ic this] show ?thesis by (auto simp: act)
      qed
    qed
  qed
qed

lemma pool_at_mem:
  assumes "pool_at f s" and "i \<in> set (dom_active s k @ dom_redundant s k)"
  shows "i \<noteq> f" and "i < length (document s)" and "className (document s ! i) = cls k"
    and "parentNode (document s ! i) = Some f"
  using pool_atD(7)[OF assms] pool_atD(4,5)[OF assms(1)] by auto

lemma pool_at_active_redundant_disjoint:
  assumes "pool_at f s" and "j \<in> set (dom_active s k')" and "i \<in> set (dom_redundant s k)"
  shows "j \<noteq> i"
proof
  assume e: "j = i"
  have a: "className (document s ! j) = cls k'" using pool_at_mem(3)[OF assms(1), of j k'] assms(2) by simp
  have b: "className (document s ! i) = cls k" using pool_at_mem(3)[OF assms(1), of i k] assms(3) by simp
  from a b e have "k' = k" by simp
  with pool_atD(6)[OF assms(1), of k] assms(2,3) e show False by auto
qed

lemma placed_active_nodes:
  assumes pa: "pool_at f s" and j: "j \<in> set (dom_active s k')"
  shows "document (placed k x t orientation s) ! j = document s ! j"
proof (cases "dom_redundant s k")
  case (Cons i rest)
  have "j \<noteq> i" using pool_at_active_redundant_disjoint[OF pa j, of i k] Cons by simp
  then show ?thesis by (simp add: placed_reuse[OF Cons])
next
  case Nil
  have "j \<noteq> f" "j < length (document s)" using pool_at_mem(1,2)[OF pa, of j k'] j by simp_all
  then show ?thesis by (simp add: placed_create[OF Nil pool_atD(1)[OF pa]] nth_append)
qed

lemma placed_other_nodes:
  assumes pa: "pool_at f s" and j: "j < length (document s)" "j \<noteq> f" "j \<notin> set (dom_redundant s k)"
  shows "document (placed k x t orientation s) ! j = document s ! j"
proof (cases "dom_redundant s k")
  case (Cons i rest)
  have "j \<noteq> i" using j(3) Cons by auto
  then show ?thesis by (simp add: placed_reuse[OF Cons])
next
  case Nil
  show ?thesis using j by (simp add: placed_create[OF Nil pool_atD(1)[OF pa]] nth_append)
qed

lemma placed_new_active:
  assumes pa: "pool_at f s"
  shows "\<exists>i. dom_active (placed k x t orientation s) = (dom_active s)(k := dom_active s k @ [i])
            \<and> (\<exists>n. document (placed k x t orientation s) ! i = paintNode k s x t orientation n)"
proof (cases "dom_redundant s k")
  case (Cons i rest)
  have "i < length (document s)" using pool_at_mem(2)[OF pa, of i k] Cons by simp
  then show ?thesis
    by (intro exI[of _ i] conjI exI[of _ "document s ! i"]) (simp_all add: placed_reuse[OF Cons])
next
  case Nil
  show ?thesis
    by (intro exI[of _ "length (document s)"] conjI
          exI[of _ "(freshNode k t)\<lparr>parentNode := Some f\<rparr>"])
       (simp_all add: placed_create[OF Nil pool_atD(1)[OF pa]] nth_append)
qed

lemma settled_placed:
  assumes pa: "pool_at f s" and st: "\<And>k'. settled orientation s k' (P k')"
  shows "settled orientation (placed k x t orientation s) k' (if k' = k then P k @ [(x, t)] else P k')"
proof -
  let ?s' = "placed k x t orientation s"
  have keep: "\<And>k''. list_all2 (\<lambda>i (x, t). paintNode k'' ?s' x t orientation (document ?s' ! i) = document ?s' ! i)
                 (dom_active s k'') (P k'')"
  proof -
    fix k''
    have "list_all2 (\<lambda>i (x, t). paintNode k'' s x t orientation (document s ! i) = document s ! i)
                 (dom_active s k'') (P k'')"
      using st[of k''] unfolding settled_def .
    then show "list_all2 (\<lambda>i (x, t). paintNode k'' ?s' x t orientation (document ?s' ! i) = document ?s' ! i)
                 (dom_active s k'') (P k'')"
      by (rule list.rel_mono_strong) (auto simp: placed_active_nodes[OF pa])
  qed
  from placed_new_active[OF pa, of k x t orientation] obtain i n where
    a: "dom_active ?s' = (dom_active s)(k := dom_active s k @ [i])"
    and d: "document ?s' ! i = paintNode k s x t orientation n" by blast
  show ?thesis
  proof (cases "k' = k")
    case False
    then show ?thesis using keep[of k'] by (simp add: settled_def a)
  next
    case True
    have "paintNode k ?s' x t orientation (document ?s' ! i) = document ?s' ! i"
      by (simp add: d)
    then show ?thesis using keep[of k] True
      by (simp add: settled_def a list_all2_appendI)
  qed
qed

lemma cmdsOf_Cons:
  "cmdsOf k' ((k, x, t) # cs) = (if k' = k then [(x, t)] else []) @ cmdsOf k' cs"
  by (simp add: cmdsOf_def)

lemma cmdsOf_append: "cmdsOf k (cs @ ds) = cmdsOf k cs @ cmdsOf k ds"
  by (simp add: cmdsOf_def)

lemma run_inv:
  assumes "pool_at f s" and "\<And>k. settled orientation s k (P k)"
  shows "pool_at f (run orientation cs s)
         \<and> (\<forall>k. settled orientation (run orientation cs s) k (P k @ cmdsOf k cs))"
  using assms
proof (induction cs arbitrary: s P)
  case Nil
  then show ?case by (simp add: cmdsOf_def)
next
  case (Cons c cs)
  obtain k x t where c: "c = (k, x, t)" by (cases c) auto
  let ?s1 = "placed k x t orientation s"
  let ?P1 = "\<lambda>k'. if k' = k then P k @ [(x, t)] else P k'"
  have p1: "pool_at f ?s1" using Cons.prems(1) by (rule pool_at_placed)
  have s1: "\<And>k'. settled orientation ?s1 k' (?P1 k')"
    using settled_placed[OF Cons.prems(1), of orientation P] Cons.prems(2) by simp
  from Cons.IH[OF p1 s1] have a: "pool_at f (run orientation cs ?s1)"
    and b: "\<And>k'. settled orientation (run orientation cs ?s1) k' (?P1 k' @ cmdsOf k' cs)"
    by blast+
  have "settled orientation (run orientation cs ?s1) k' (P k' @ cmdsOf k' (c # cs))" for k'
    using b[of k'] by (cases "k' = k") (simp_all add: c cmdsOf_Cons)
  with a show ?case by (simp add: c)
qed

lemma redundant_placed_subset:
  "set (dom_redundant (placed k x t orientation s) k') \<subseteq> set (dom_redundant s k')"
  by (auto simp: placed_def split: list.splits option.splits if_splits)

lemma run_other_nodes:
  assumes "pool_at f s" and "j < length (document s)" and "j \<noteq> f"
    and "\<And>k. j \<notin> set (dom_redundant s k)"
  shows "document (run orientation cs s) ! j = document s ! j"
  using assms
proof (induction cs arbitrary: s)
  case Nil
  then show ?case by simp
next
  case (Cons c cs)
  obtain k x t where c: "c = (k, x, t)" by (cases c) auto
  let ?s1 = "placed k x t orientation s"
  have p1: "pool_at f ?s1" using Cons.prems(1) by (rule pool_at_placed)
  have l1: "j < length (document ?s1)" using Cons.prems(2) length_placed[of s k x t orientation] by simp
  have r1: "\<And>k'. j \<notin> set (dom_redundant ?s1 k')"
    using Cons.prems(4) redundant_placed_subset[of k x t orientation s] by blast
  have "document (run orientation cs ?s1) ! j = document ?s1 ! j"
    using Cons.IH[OF p1 l1 Cons.prems(3) r1] .
  also have "\<dots> = document s ! j"
    using placed_other_nodes[OF Cons.prems(1,2,3)] Cons.prems(4) by simp
  finally show ?case by (simp add: c)
qed

lemma extends_refl: "extends f d d"
  unfolding extends_def by (auto intro: exI[of _ "[]"])

lemma extends_trans:
  assumes "extends f d d'" and "extends f d' d''"
  shows "extends f d d''"
proof -
  from assms(1) obtain n1 where 1: "length d \<le> length d'"
    "d' ! f = (d ! f)\<lparr>childNodes := childNodes (d ! f) @ n1\<rparr>" "\<forall>i \<in> set n1. length d \<le> i"
    unfolding extends_def by blast
  from assms(2) obtain n2 where 2: "length d' \<le> length d''"
    "d'' ! f = (d' ! f)\<lparr>childNodes := childNodes (d' ! f) @ n2\<rparr>" "\<forall>i \<in> set n2. length d' \<le> i"
    unfolding extends_def by blast
  have "d'' ! f = (d ! f)\<lparr>childNodes := childNodes (d ! f) @ (n1 @ n2)\<rparr>"
    by (simp add: 1 2)
  moreover have "\<forall>i \<in> set (n1 @ n2). length d \<le> i" using 1 2 by auto
  ultimately show ?thesis unfolding extends_def using 1(1) 2(1) by (metis le_trans)
qed

lemma extends_placed:
  assumes pa: "pool_at f s"
  shows "extends f (document s) (document (placed k x t orientation s))"
proof (cases "dom_redundant s k")
  case (Cons i rest)
  have "i \<noteq> f" using pool_at_mem(1)[OF pa, of i k] Cons by simp
  then show ?thesis unfolding extends_def
    by (auto simp: placed_reuse[OF Cons] intro!: exI[of _ "[]"])
next
  case Nil
  show ?thesis unfolding extends_def using pool_atD(2)[OF pa]
    by (auto simp: placed_create[OF Nil pool_atD(1)[OF pa]] nth_append
          intro!: exI[of _ "[length (document s)]"])
qed

lemma extends_run:
  assumes "pool_at f s"
  shows "extends f (document s) (document (run orientation cs s))"
  using assms
proof (induction cs arbitrary: s)
  case Nil
  then show ?case by (simp add: extends_refl)
next
  case (Cons c cs)
  obtain k x t where c: "c = (k, x, t)" by (cases c) auto
  have p1: "pool_at f (placed k x t orientation s)" using Cons.prems by (rule pool_at_placed)
  show ?case
    using extends_trans[OF extends_placed[OF Cons.prems, of k x t orientation] Cons.IH[OF p1]]
    by (simp add: c)
qed

subsection \<open>The cleanup\<close>

lemma detachAll_Nil [simp]: "detachAll [] doc = doc"
  by (simp add: detachAll_def)

lemma detachAll_Cons [simp]: "detachAll (i # is) doc = detachAll is (detach i doc)"
  by (simp add: detachAll_def)

lemma cleanup_detachAll:
  "cleanup s = s\<lparr>document := detachAll (allRedundant s) (document s), dom_redundant := (\<lambda>k. [])\<rparr>"
  by (simp add: cleanup_def cleanupArray_def detachAll_def allRedundant_def)

lemma detach_child:
  assumes "parentNode (d ! i) = Some f" and "i \<noteq> f" and "i < length d" and "f < length d"
  shows "detach i d = d[f := (d ! f)\<lparr>childNodes := remove1 i (childNodes (d ! f))\<rparr>,
                        i := (d ! i)\<lparr>parentNode := None\<rparr>]"
  using assms by (simp add: detach_def Let_def)

lemma remove1_filter: "distinct xs \<Longrightarrow> remove1 x xs = filter (\<lambda>y. y \<noteq> x) xs"
  by (simp add: distinct_remove1_removeAll removeAll_filter_not_eq) metis

lemma detachAll_spec:
  assumes "f < length d" and "distinct is" and "distinct (childNodes (d ! f))"
    and "\<And>i. i \<in> set is \<Longrightarrow> i < length d \<and> i \<noteq> f \<and> parentNode (d ! i) = Some f"
  shows "length (detachAll is d) = length d
       \<and> detachAll is d ! f = (d ! f)\<lparr>childNodes := filter (\<lambda>j. j \<notin> set is) (childNodes (d ! f))\<rparr>
       \<and> (\<forall>i \<in> set is. detachAll is d ! i = (d ! i)\<lparr>parentNode := None\<rparr>)
       \<and> (\<forall>j. j \<notin> set is \<and> j \<noteq> f \<longrightarrow> detachAll is d ! j = d ! j)"
  using assms
proof (induction "is" arbitrary: d)
  case Nil
  then show ?case by simp
next
  case (Cons i "is")
  let ?d1 = "detach i d"
  have i: "i < length d" "i \<noteq> f" "parentNode (d ! i) = Some f" using Cons.prems(4)[of i] by simp_all
  have d1: "?d1 = d[f := (d ! f)\<lparr>childNodes := remove1 i (childNodes (d ! f))\<rparr>,
                    i := (d ! i)\<lparr>parentNode := None\<rparr>]"
    using detach_child[OF i(3) i(2) i(1) Cons.prems(1)] .
  have len: "length ?d1 = length d" by (simp add: d1)
  have nf: "?d1 ! f = (d ! f)\<lparr>childNodes := filter (\<lambda>y. y \<noteq> i) (childNodes (d ! f))\<rparr>"
    using i Cons.prems(1,3) by (simp add: d1 remove1_filter)
  have ni: "?d1 ! i = (d ! i)\<lparr>parentNode := None\<rparr>" using i by (simp add: d1)
  have nj: "\<And>j. j \<noteq> i \<Longrightarrow> j \<noteq> f \<Longrightarrow> ?d1 ! j = d ! j" by (simp add: d1)
  have p1: "f < length ?d1" using Cons.prems(1) len by simp
  have p2: "distinct is" using Cons.prems(2) by simp
  have p3: "distinct (childNodes (?d1 ! f))" using Cons.prems(3) by (simp add: nf)
  have p4: "\<And>j. j \<in> set is \<Longrightarrow> j < length ?d1 \<and> j \<noteq> f \<and> parentNode (?d1 ! j) = Some f"
  proof -
    fix j assume j: "j \<in> set is"
    then have "j \<noteq> i" using Cons.prems(2) by auto
    moreover have "j < length d \<and> j \<noteq> f \<and> parentNode (d ! j) = Some f" using Cons.prems(4)[of j] j by simp
    ultimately show "j < length ?d1 \<and> j \<noteq> f \<and> parentNode (?d1 ! j) = Some f"
      using nj[of j] len by simp
  qed
  note ih = Cons.IH[OF p1 p2 p3 p4]
  have ini: "i \<notin> set is" using Cons.prems(2) by simp
  show ?case
  proof (intro conjI ballI allI impI)
    show "length (detachAll (i # is) d) = length d" using ih len by simp
    show "detachAll (i # is) d ! f = (d ! f)\<lparr>childNodes := filter (\<lambda>j. j \<notin> set (i # is)) (childNodes (d ! f))\<rparr>"
      using ih by (simp add: nf conj_commute)
  next
    fix j assume j: "j \<in> set (i # is)"
    then have "j \<noteq> f" using Cons.prems(4)[of j] by simp
    then show "detachAll (i # is) d ! j = (d ! j)\<lparr>parentNode := None\<rparr>"
      using j ih ini i(2) ni nj by (cases "j = i") auto
  next
    fix j assume "j \<notin> set (i # is) \<and> j \<noteq> f"
    then show "detachAll (i # is) d ! j = d ! j"
      using ih nj by auto
  qed
qed

lemma kind_UNIV: "(UNIV :: kind set) = {majorLines, majorTexts, minorLines, minorTexts}"
  using kind.exhaust by auto

lemma set_allRedundant: "set (allRedundant s) = (\<Union>k. set (dom_redundant s k))"
  by (auto simp: allRedundant_def kind_UNIV)

lemma pool_at_redundant_disjoint:
  assumes "pool_at f s" and "k \<noteq> k'"
  shows "set (dom_redundant s k) \<inter> set (dom_redundant s k') = {}"
proof -
  { fix i assume a: "i \<in> set (dom_redundant s k)" and b: "i \<in> set (dom_redundant s k')"
    have "className (document s ! i) = cls k" using pool_at_mem(3)[OF assms(1), of i k] a by simp
    moreover have "className (document s ! i) = cls k'" using pool_at_mem(3)[OF assms(1), of i k'] b by simp
    ultimately have False using assms(2) by simp }
  then show ?thesis by blast
qed

lemma distinct_allRedundant:
  assumes "pool_at f s"
  shows "distinct (allRedundant s)"
proof -
  have d: "\<And>k. distinct (dom_redundant s k)" using pool_atD(6)[OF assms] by simp
  note dj = pool_at_redundant_disjoint[OF assms]
  show ?thesis unfolding allRedundant_def
    using d dj[of majorLines majorTexts] dj[of majorLines minorLines] dj[of majorLines minorTexts]
      dj[of majorTexts minorLines] dj[of majorTexts minorTexts] dj[of minorLines minorTexts]
    by (simp add: Int_commute) blast
qed

lemma cleanup_spec:
  assumes pa: "pool_at f s"
  shows "pool_at f (cleanup s)"
    and "\<And>k. dom_redundant (cleanup s) k = []"
    and "dom_active (cleanup s) = dom_active s"
    and "\<And>k j. j \<in> set (dom_active s k) \<Longrightarrow> document (cleanup s) ! j = document s ! j"
    and "\<And>j. j \<noteq> f \<Longrightarrow> (\<And>k. j \<notin> set (dom_redundant s k)) \<Longrightarrow> document (cleanup s) ! j = document s ! j"
    and "length (document (cleanup s)) = length (document s)"
    and "document (cleanup s) ! f =
           (document s ! f)\<lparr>childNodes := filter (\<lambda>j. j \<notin> (\<Union>k. set (dom_redundant s k))) (childNodes (document s ! f))\<rparr>"
    and "\<And>k i. i \<in> set (dom_redundant s k) \<Longrightarrow> parentNode (document (cleanup s) ! i) = None"
proof -
  let ?d = "document s" and ?d' = "document (cleanup s)"
  let ?R = "allRedundant s"
  have h4: "\<And>i. i \<in> set ?R \<Longrightarrow> i < length ?d \<and> i \<noteq> f \<and> parentNode (?d ! i) = Some f"
  proof -
    fix i assume "i \<in> set ?R"
    then obtain k where "i \<in> set (dom_redundant s k)" by (auto simp: set_allRedundant)
    then have "i \<in> set (dom_active s k @ dom_redundant s k)" by simp
    from pool_at_mem[OF pa this] show "i < length ?d \<and> i \<noteq> f \<and> parentNode (?d ! i) = Some f" by simp
  qed
  have dd: "?d' = detachAll ?R ?d" by (simp add: cleanup_detachAll)
  note sp = detachAll_spec[OF pool_atD(2)[OF pa] distinct_allRedundant[OF pa] pool_atD(3)[OF pa] h4]
  from sp have len: "length ?d' = length ?d" by (simp add: dd)
  from sp have nf: "?d' ! f = (?d ! f)\<lparr>childNodes := filter (\<lambda>j. j \<notin> set ?R) (childNodes (?d ! f))\<rparr>"
    by (simp add: dd)
  from sp have nr: "\<And>i. i \<in> set ?R \<Longrightarrow> ?d' ! i = (?d ! i)\<lparr>parentNode := None\<rparr>" by (simp add: dd)
  from sp have nj: "\<And>j. j \<notin> set ?R \<Longrightarrow> j \<noteq> f \<Longrightarrow> ?d' ! j = ?d ! j" by (simp add: dd)
  have act: "dom_active (cleanup s) = dom_active s" by (simp add: cleanup_detachAll)
  have red: "\<And>k. dom_redundant (cleanup s) k = []" by (simp add: cleanup_detachAll)
  have actR: "\<And>k j. j \<in> set (dom_active s k) \<Longrightarrow> j \<notin> set ?R"
    using pool_at_active_redundant_disjoint[OF pa] by (auto simp: set_allRedundant)
  have actn: "\<And>k j. j \<in> set (dom_active s k) \<Longrightarrow> ?d' ! j = ?d ! j"
  proof -
    fix k j assume j: "j \<in> set (dom_active s k)"
    then have "j \<noteq> f" using pool_at_mem(1)[OF pa, of j k] by simp
    with actR[OF j] show "?d' ! j = ?d ! j" using nj by simp
  qed
  show "dom_active (cleanup s) = dom_active s" by (rule act)
  show "\<And>k. dom_redundant (cleanup s) k = []" by (rule red)
  show "\<And>k j. j \<in> set (dom_active s k) \<Longrightarrow> ?d' ! j = ?d ! j" by (rule actn)
  show "\<And>j. j \<noteq> f \<Longrightarrow> (\<And>k. j \<notin> set (dom_redundant s k)) \<Longrightarrow> ?d' ! j = ?d ! j"
    using nj by (simp add: set_allRedundant)
  show "length ?d' = length ?d" by (rule len)
  show "?d' ! f = (?d ! f)\<lparr>childNodes := filter (\<lambda>j. j \<notin> (\<Union>k. set (dom_redundant s k))) (childNodes (?d ! f))\<rparr>"
    using nf by (simp add: set_allRedundant)
  show "\<And>k i. i \<in> set (dom_redundant s k) \<Longrightarrow> parentNode (?d' ! i) = None"
  proof -
    fix k i assume "i \<in> set (dom_redundant s k)"
    then have "i \<in> set ?R" by (auto simp: set_allRedundant)
    from nr[OF this] show "parentNode (?d' ! i) = None" by simp
  qed
  show "pool_at f (cleanup s)" unfolding pool_at_def
  proof (intro conjI allI ballI impI)
    show "frame (cleanup s) = Some f" using pool_atD(1)[OF pa] by (simp add: cleanup_detachAll)
    show "f < length ?d'" using pool_atD(2)[OF pa] len by simp
    show "distinct (childNodes (?d' ! f))" using pool_atD(3)[OF pa] by (simp add: nf)
    show "f \<notin> set (childNodes (?d' ! f))" using pool_atD(4)[OF pa] by (simp add: nf)
  next
    fix i assume "i \<in> set (childNodes (?d' ! f))"
    then show "i < length ?d'" using pool_atD(5)[OF pa, of i] len by (simp add: nf)
  next
    fix k show "distinct (dom_active (cleanup s) k @ dom_redundant (cleanup s) k)"
      using pool_atD(6)[OF pa, of k] by (simp add: act red)
  next
    fix k i assume "i \<in> set (dom_active (cleanup s) k @ dom_redundant (cleanup s) k)"
    then have i: "i \<in> set (dom_active s k)" by (simp add: act red)
    then have i': "i \<in> set (dom_active s k @ dom_redundant s k)" by simp
    note m = pool_atD(7)[OF pa i']
    show "className (?d' ! i) = cls k" using m by (simp add: actn[OF i])
    show "parentNode (?d' ! i) = Some f" using m by (simp add: actn[OF i])
    show "i \<in> set (childNodes (?d' ! f))" using m actR[OF i] by (simp add: nf)
    assume "isText k"
    then show "nodeValue (?d' ! i) \<noteq> None" using m by (simp add: actn[OF i])
  next
    fix i k assume ic: "i \<in> set (childNodes (?d' ! f))" and c: "className (?d' ! i) = cls k"
    from ic have i1: "i \<in> set (childNodes (?d ! f))" and i2: "i \<notin> set ?R" by (simp_all add: nf)
    have "i \<noteq> f" using i1 pool_atD(4)[OF pa] by auto
    then have "?d' ! i = ?d ! i" using nj i2 by simp
    then have "className (?d ! i) = cls k" using c by simp
    from pool_atD(8)[OF pa i1 this] have "i \<in> set (dom_active s k) \<or> i \<in> set (dom_redundant s k)" by simp
    moreover have "i \<notin> set (dom_redundant s k)" using i2 by (auto simp: set_allRedundant)
    ultimately show "i \<in> set (dom_active (cleanup s) k @ dom_redundant (cleanup s) k)"
      by (simp add: act red)
  qed
qed

subsection \<open>\<^verbatim>\<open>_repaintLabels\<close> is one cycle of placements\<close>


lemma placeable_step [simp]: "placeable (s\<lparr>step := v\<rparr>) = placeable s"
  by (simp add: placeable_def)

lemma pool_at_step [simp]: "pool_at f (s\<lparr>step := v\<rparr>) = pool_at f s"
  by (simp add: pool_at_def)

lemma pool_at_conversion [simp]: "pool_at f (s\<lparr>conversion := v\<rparr>) = pool_at f s"
  by (simp add: pool_at_def)

lemma paintNode_step [simp]: "paintNode k (s\<lparr>step := v\<rparr>) = paintNode k s"
  by (intro ext, cases k) simp_all

lemma paintNode_conversion [simp]: "paintNode k (s\<lparr>conversion := v\<rparr>) = paintNode k s"
  by (intro ext, cases k) simp_all

lemma paintNode_beginCycle [simp]: "paintNode k (beginCycle s) = paintNode k s"
  by (intro ext, cases k) (simp_all add: beginCycle_def)

lemma paintNode_run [simp]: "paintNode k (run orientation cs s) = paintNode k s"
  by (induction cs arbitrary: s) auto

lemma paintNode_cleanup [simp]: "paintNode k (cleanup s) = paintNode k s"
  by (intro ext, cases k) (simp_all add: cleanup_def)

lemma settled_step [simp]: "settled orientation (s\<lparr>step := v\<rparr>) k xs = settled orientation s k xs"
  by (simp add: settled_def)

lemma getOption_upd [simp]:
  "getOption_showMinorLabels (s\<lparr>step := v\<rparr>) = getOption_showMinorLabels s"
  "getOption_showMajorLabels (s\<lparr>step := v\<rparr>) = getOption_showMajorLabels s"
  "getOption_showMinorLabels (s\<lparr>conversion := w\<rparr>) = getOption_showMinorLabels s"
  "getOption_showMajorLabels (s\<lparr>conversion := w\<rparr>) = getOption_showMajorLabels s"
  "getOption_showMinorLabels (beginCycle s) = getOption_showMinorLabels s"
  "getOption_showMajorLabels (beginCycle s) = getOption_showMajorLabels s"
  by (simp_all add: getOption_showMinorLabels_def getOption_showMajorLabels_def beginCycle_def)

lemma pool_at_beginCycle:
  assumes "pool_at f s" and e: "\<And>k. dom_redundant s k = []"
  shows "pool_at f (beginCycle s)"
proof -
  have a: "\<And>k. dom_active (beginCycle s) k @ dom_redundant (beginCycle s) k
                 = dom_active s k @ dom_redundant s k"
    by (simp add: beginCycle_def e)
  have d: "document (beginCycle s) = document s" and fr: "frame (beginCycle s) = frame s"
    by (simp_all add: beginCycle_def)
  show ?thesis using assms(1) unfolding pool_at_def a d fr .
qed

lemma beginCycle_fields [simp]:
  "conversion (beginCycle s) = conversion s"
  "frame (beginCycle s) = frame s"
  "document (beginCycle s) = document s"
  "props_majorCharWidth (beginCycle s) = props_majorCharWidth s"
  "dom_active (beginCycle s) = (\<lambda>k. [])"
  "dom_redundant (beginCycle s) = dom_active s"
  "dom_line (beginCycle s) = dom_line s"
  "step (beginCycle s) = step s"
  by (simp_all add: beginCycle_def)

lemma run_props [simp]:
  "props_majorCharWidth (run orientation cs s) = props_majorCharWidth s"
  "props_minorCharWidth (run orientation cs s) = props_minorCharWidth s"
  "dom_line (run orientation cs s) = dom_line s"
  "parent (run orientation cs s) = parent s"
  "range' (run orientation cs s) = range' s"
  "step (run orientation cs s) = step s"
  "width (run orientation cs s) = width s"
  "height (run orientation cs s) = height s"
  by (induction cs arbitrary: s) auto

lemma edge_step:
  assumes "placeable s5" and "conversion s5 = Some c"
  shows "(if getOption_showMajorLabels s5 then
           andThen (lift s5 (toTime env s5 0)) (\<lambda>leftTime.
             let leftText = getLabelMajorAt env stp' leftTime;
                 widthText = real (length leftText) * orDefault (props_majorCharWidth s5) 10 + 10
             in if (case xf of None \<Rightarrow> True | Some x \<Rightarrow> widthText < x)
                then repaintMajorText 0 leftText orientation s5
                else Inr s5)
         else Inr s5)
       = Inr (run orientation
               (if getOption_showMajorLabels s5
                   \<and> (case xf of None \<Rightarrow> True
                       | Some x \<Rightarrow> real (length (getLabelMajorAt env stp' (conv_toTime env c 0)))
                                    * orDefault (props_majorCharWidth s5) 10 + 10 < x)
                then [(majorTexts, 0, getLabelMajorAt env stp' (conv_toTime env c 0))]
                else []) s5)"
  using assms by (simp add: toTime_def lift_def andThen_def Let_def repaintMajorText_placed)

lemma repaintLabels_head:
  assumes r: "range' s = Some rng"
    and u: "updateConversion env s = Inr (s\<lparr>conversion := Some c\<rparr>)"
  shows "repaintLabels env s =
      andThen (tickLoop env (getOption_orientation s) (first env (newStep env s c rng)) 0 None
                 (beginCycle (s\<lparr>conversion := Some c, step := Some (newStep env s c rng)\<rparr>)))
       (\<lambda>(s4, stp', xFirstMajorLabel).
      let s5 = s4\<lparr>step := Some stp'\<rparr> in
      andThen
        (if getOption_showMajorLabels s5 then
           andThen (lift s5 (toTime env s5 0)) (\<lambda>leftTime.
             let leftText = getLabelMajorAt env stp' leftTime;
                 widthText = real (length leftText) * orDefault (props_majorCharWidth s5) 10 + 10
             in if (case xFirstMajorLabel of None \<Rightarrow> True | Some xf \<Rightarrow> widthText < xf)
                then repaintMajorText 0 leftText (getOption_orientation s) s5
                else Inr s5)
         else Inr s5)
        (\<lambda>s6. Inr (cleanup s6)))"
  unfolding repaintLabels_def Let_def u
  by (simp add: andThen_def r toTime_def lift_def newStep_def beginCycle_def)

lemma repaintLabels_cycle:
  assumes r: "range' s = Some rng"
    and u: "updateConversion env s = Inr (s\<lparr>conversion := Some c\<rparr>)"
    and pa: "pool_at f s" and e: "\<And>k. dom_redundant s k = []"
  shows "repaintLabels env s = Inr (cycleResult env s c rng)"
proof -
  let ?o = "getOption_orientation s"
  let ?stp = "newStep env s c rng"
  let ?s3 = "beginCycle (s\<lparr>conversion := Some c, step := Some ?stp\<rparr>)"
  let ?s4 = "run ?o (loopCmds env s c rng) ?s3"
  let ?s5 = "?s4\<lparr>step := Some (finalCursor env s c rng)\<rparr>"
  have p3: "pool_at f ?s3" using pa e by (intro pool_at_beginCycle) simp_all
  have pl3: "placeable ?s3" using p3 by (rule pool_at_placeable)
  have c3: "conversion ?s3 = Some c" by simp
  have loop: "tickLoop env ?o (first env ?stp) 0 None ?s3 =
        Inr (?s4, finalCursor env s c rng, xFirstMajorLabel env s c rng)"
    using tickLoop_run[OF pl3 c3, of env ?o "first env ?stp" 0 None]
    by (simp add: loopCmds_def cycleTicks_def finalCursor_def xFirstMajorLabel_def)
  have pl5: "placeable ?s5" using placeable_run[OF pl3] by simp
  have c5: "conversion ?s5 = Some c" by simp
  note edge = edge_step[OF pl5 c5, of env "finalCursor env s c rng" "xFirstMajorLabel env s c rng" ?o]
  have ec: "(if getOption_showMajorLabels ?s5
                   \<and> (case xFirstMajorLabel env s c rng of None \<Rightarrow> True
                       | Some x \<Rightarrow> real (length (getLabelMajorAt env (finalCursor env s c rng) (conv_toTime env c 0)))
                                    * orDefault (props_majorCharWidth ?s5) 10 + 10 < x)
                then [(majorTexts, 0, getLabelMajorAt env (finalCursor env s c rng) (conv_toTime env c 0))]
                else []) = edgeCmds env s c rng"
    by (simp add: edgeCmds_def widthText_def split: option.splits)
  show ?thesis
    unfolding repaintLabels_head[OF r u] loop
    apply (simp only: andThen_def sum.case prod.case Let_def)
    apply (simp only: edge[unfolded andThen_def Let_def ec] sum.case)
    apply (simp only: cycleResult_def cycleDirty_def)
    done
qed

subsection \<open>What a cycle places\<close>

lemma cmdsOf_concat: "cmdsOf k (concat xss) = concat (map (cmdsOf k) xss)"
  by (induction xss) (simp_all add: cmdsOf_def)

lemma cmdsOf_tick:
  "cmdsOf minorTexts (tickCmds env c sm sM t) = (if sm then [(pix env c t, getLabelMinor env t)] else [])"
  "cmdsOf majorTexts (tickCmds env c sm sM t) =
     (if isMajor env t \<and> sM \<and> pix env c t > 0 then [(pix env c t, getLabelMajor env t)] else [])"
  "cmdsOf majorLines (tickCmds env c sm sM t) = (if isMajor env t \<and> sM then [(pix env c t, [])] else [])"
  "cmdsOf minorLines (tickCmds env c sm sM t) = (if isMajor env t \<and> sM then [] else [(pix env c t, [])])"
  by (simp_all add: cmdsOf_def tickCmds_def pix_def Let_def)

lemma concat_map_if: "concat (map (\<lambda>t. if P t then [g t] else []) ts) = map g (filter P ts)"
  by (induction ts) simp_all

lemma cmdsOf_ticks:
  "cmdsOf minorTexts (concat (map (tickCmds env c sm sM) ts)) =
     (if sm then map (\<lambda>t. (pix env c t, getLabelMinor env t)) ts else [])"
  "cmdsOf majorTexts (concat (map (tickCmds env c sm sM) ts)) =
     map (\<lambda>t. (pix env c t, getLabelMajor env t)) (filter (\<lambda>t. isMajor env t \<and> sM \<and> pix env c t > 0) ts)"
  "cmdsOf majorLines (concat (map (tickCmds env c sm sM) ts)) =
     map (\<lambda>t. (pix env c t, [])) (filter (\<lambda>t. isMajor env t \<and> sM) ts)"
  "cmdsOf minorLines (concat (map (tickCmds env c sm sM) ts)) =
     map (\<lambda>t. (pix env c t, [])) (filter (\<lambda>t. \<not> (isMajor env t \<and> sM)) ts)"
proof -
  have "cmdsOf minorTexts (concat (map (tickCmds env c sm sM) ts)) =
          concat (map (\<lambda>t. if sm then [(pix env c t, getLabelMinor env t)] else []) ts)"
    by (simp add: cmdsOf_concat comp_def cmdsOf_tick)
  also have "\<dots> = map (\<lambda>t. (pix env c t, getLabelMinor env t)) (filter (\<lambda>t. sm) ts)"
    by (rule concat_map_if)
  finally show "cmdsOf minorTexts (concat (map (tickCmds env c sm sM) ts)) =
     (if sm then map (\<lambda>t. (pix env c t, getLabelMinor env t)) ts else [])"
    by simp
  have "cmdsOf majorTexts (concat (map (tickCmds env c sm sM) ts)) =
          concat (map (\<lambda>t. if isMajor env t \<and> sM \<and> pix env c t > 0
                            then [(pix env c t, getLabelMajor env t)] else []) ts)"
    by (simp add: cmdsOf_concat comp_def cmdsOf_tick)
  then show "cmdsOf majorTexts (concat (map (tickCmds env c sm sM) ts)) =
     map (\<lambda>t. (pix env c t, getLabelMajor env t)) (filter (\<lambda>t. isMajor env t \<and> sM \<and> pix env c t > 0) ts)"
    by (simp only: concat_map_if)
  have "cmdsOf majorLines (concat (map (tickCmds env c sm sM) ts)) =
          concat (map (\<lambda>t. if isMajor env t \<and> sM then [(pix env c t, [])] else []) ts)"
    by (simp add: cmdsOf_concat comp_def cmdsOf_tick)
  then show "cmdsOf majorLines (concat (map (tickCmds env c sm sM) ts)) =
     map (\<lambda>t. (pix env c t, [])) (filter (\<lambda>t. isMajor env t \<and> sM) ts)"
    by (simp only: concat_map_if)
  have "cmdsOf minorLines (concat (map (tickCmds env c sm sM) ts)) =
          concat (map (\<lambda>t. if \<not> (isMajor env t \<and> sM) then [(pix env c t, [])] else []) ts)"
    by (simp add: cmdsOf_concat comp_def cmdsOf_tick) (metis (mono_tags, lifting))
  then show "cmdsOf minorLines (concat (map (tickCmds env c sm sM) ts)) =
     map (\<lambda>t. (pix env c t, [])) (filter (\<lambda>t. \<not> (isMajor env t \<and> sM)) ts)"
    by (simp only: concat_map_if)
qed

lemma xFirstOf_Some: "xFirstOf env c sM ts (Some v) = Some v"
  by (induction ts) (simp_all add: tickXFirst_def)

lemma xFirstOf_filter:
  "xFirstOf env c sM ts None =
     (case filter (\<lambda>t. isMajor env t \<and> sM \<and> pix env c t > 0) ts of
        [] \<Rightarrow> None | t # _ \<Rightarrow> Some (pix env c t))"
  by (induction ts) (simp_all add: tickXFirst_def pix_def xFirstOf_Some)

lemma settled_length: "settled orientation s k xs \<Longrightarrow> length (dom_active s k) = length xs"
  unfolding settled_def by (rule list_all2_lengthD)

lemma style_left_paintNode: "style_left (paintNode k s x t orientation n) = leftOf k s x"
  by (cases k) simp_all

lemma settled_left:
  assumes "settled orientation s k xs"
  shows "map (\<lambda>i. style_left (document s ! i)) (dom_active s k) = map (\<lambda>(x, t). leftOf k s x) xs"
  using assms unfolding settled_def
proof (induction rule: list_all2_induct)
  case Nil
  then show ?case by simp
next
  case (Cons i js p ps)
  obtain x t where p: "p = (x, t)" by (cases p)
  from Cons.hyps(1) have "style_left (paintNode k s x t orientation (document s ! i)) = style_left (document s ! i)"
    by (simp add: p)
  then show ?case using Cons.IH by (simp add: p style_left_paintNode)
qed

lemma settled_text:
  assumes "settled orientation s k xs" and "isText k"
  shows "map (\<lambda>i. nodeValue (document s ! i)) (dom_active s k) = map (\<lambda>(x, t). Some t) xs"
  using assms unfolding settled_def
proof (induction rule: list_all2_induct)
  case Nil
  then show ?case by simp
next
  case (Cons i js p ps)
  obtain x t where p: "p = (x, t)" by (cases p)
  from Cons.hyps(1) have "nodeValue (paintNode k s x t orientation (document s ! i)) = nodeValue (document s ! i)"
    by (simp add: p)
  then show ?case using Cons.IH Cons.prems by (simp add: p nodeValue_paintNode)
qed

lemma settled_cleanup:
  assumes "pool_at f s" and "settled orientation s k xs"
  shows "settled orientation (cleanup s) k xs"
proof -
  have "list_all2 (\<lambda>i (x, t). paintNode k s x t orientation (document s ! i) = document s ! i)
          (dom_active s k) xs"
    using assms(2) unfolding settled_def .
  then have "list_all2 (\<lambda>i (x, t). paintNode k (cleanup s) x t orientation (document (cleanup s) ! i)
                 = document (cleanup s) ! i) (dom_active s k) xs"
    by (rule list.rel_mono_strong) (auto simp: cleanup_spec(4)[OF assms(1)])
  then show ?thesis unfolding settled_def by (simp add: cleanup_spec(3)[OF assms(1)])
qed

lemma settled_begin:
  "settled orientation (beginCycle s) k []"
  by (simp add: settled_def)

text \<open>the state after a cycle\<close>

lemma cycle_dirty:
  assumes pa: "pool_at f s" and e: "\<And>k. dom_redundant s k = []"
  shows "pool_at f (cycleDirty env s c rng)"
    and "\<And>k. settled (getOption_orientation s) (cycleDirty env s c rng) k
                 (cmdsOf k (cycleCmds env s c rng))"
proof -
  let ?o = "getOption_orientation s"
  let ?s3 = "beginCycle (s\<lparr>conversion := Some c, step := Some (newStep env s c rng)\<rparr>)"
  let ?s4 = "run ?o (loopCmds env s c rng) ?s3"
  let ?s5 = "?s4\<lparr>step := Some (finalCursor env s c rng)\<rparr>"
  let ?s6 = "run ?o (edgeCmds env s c rng) ?s5"
  have p3: "pool_at f ?s3" using pa e by (intro pool_at_beginCycle) simp_all
  have st3: "\<And>k. settled ?o ?s3 k []" by (rule settled_begin)
  from run_inv[OF p3 st3, of "loopCmds env s c rng"]
  have p4: "pool_at f ?s4" and st4: "\<And>k. settled ?o ?s4 k (cmdsOf k (loopCmds env s c rng))"
    by simp_all
  have p5: "pool_at f ?s5" using p4 by simp
  have st5: "\<And>k. settled ?o ?s5 k (cmdsOf k (loopCmds env s c rng))" using st4 by simp
  from run_inv[OF p5 st5, of "edgeCmds env s c rng"]
  have p6: "pool_at f ?s6" and st6: "\<And>k. settled ?o ?s6 k (cmdsOf k (cycleCmds env s c rng))"
    by (simp_all add: cycleCmds_def cmdsOf_append)
  have cd: "cycleDirty env s c rng = ?s6" by (simp add: cycleDirty_def)
  show "pool_at f (cycleDirty env s c rng)" unfolding cd by (rule p6)
  show "\<And>k. settled ?o (cycleDirty env s c rng) k (cmdsOf k (cycleCmds env s c rng))"
    unfolding cd by (rule st6)
qed

lemma cycle_inv:
  assumes pa: "pool_at f s" and e: "\<And>k. dom_redundant s k = []"
  shows "pool_at f (cycleResult env s c rng)"
    and "\<And>k. dom_redundant (cycleResult env s c rng) k = []"
    and "\<And>k. settled (getOption_orientation s) (cycleResult env s c rng) k
                 (cmdsOf k (cycleCmds env s c rng))"
proof -
  note cd = cycle_dirty[OF pa e, of env c rng]
  show "pool_at f (cycleResult env s c rng)"
    unfolding cycleResult_def using cd(1) by (rule cleanup_spec(1))
  show "\<And>k. dom_redundant (cycleResult env s c rng) k = []"
    unfolding cycleResult_def using cd(1) by (rule cleanup_spec(2))
  show "\<And>k. settled (getOption_orientation s) (cycleResult env s c rng) k (cmdsOf k (cycleCmds env s c rng))"
    unfolding cycleResult_def using cd by (rule settled_cleanup)
qed

lemma live_active:
  assumes "pool_at f s" and "\<And>k. dom_redundant s k = []"
  shows "set (live s k) = set (dom_active s k)" and "distinct (live s k)"
    and "length (live s k) = length (dom_active s k)"
proof -
  have l: "live s k = filter (\<lambda>i. className (document s ! i) = cls k) (childNodes (document s ! f))"
    using pool_atD(1)[OF assms(1)] by (simp add: live_def)
  show s: "set (live s k) = set (dom_active s k)"
  proof (intro set_eqI iffI)
    fix i assume "i \<in> set (live s k)"
    then have "i \<in> set (childNodes (document s ! f))" "className (document s ! i) = cls k"
      by (simp_all add: l)
    from pool_atD(8)[OF assms(1) this] show "i \<in> set (dom_active s k)" by (simp add: assms(2))
  next
    fix i assume "i \<in> set (dom_active s k)"
    then have "i \<in> set (dom_active s k @ dom_redundant s k)" by simp
    from pool_atD(7)[OF assms(1) this] show "i \<in> set (live s k)" by (simp add: l)
  qed
  show d: "distinct (live s k)" using pool_atD(3)[OF assms(1)] by (simp add: l)
  have "distinct (dom_active s k)" using pool_atD(6)[OF assms(1), of k] by simp
  with s d show "length (live s k) = length (dom_active s k)"
    by (metis distinct_card)
qed

lemma length_ticks_le: "length (ticks env stp n) \<le> 1000 - n"
proof (induction env stp n rule: ticks.induct)
  case (1 env stp n)
  show ?case
  proof (cases "hasNext env stp \<and> n < 1000")
    case True
    have "ticks env stp n = stp # ticks env (next' env stp) (n + 1)"
      by (subst ticks.simps) (rule if_P[OF True])
    moreover have "n < 1000" using True by simp
    ultimately show ?thesis using "1.IH"[OF True] by simp
  next
    case False
    have "ticks env stp n = []" by (subst ticks.simps) (rule if_not_P[OF False])
    then show ?thesis by simp
  qed
qed

lemma length_ticks_full:
  assumes "\<And>j. j < 1000 - n \<Longrightarrow> hasNext env (((next' env) ^^ j) stp)"
  shows "length (ticks env stp n) = 1000 - n"
  using assms
proof (induction env stp n rule: ticks.induct)
  case (1 env stp n)
  show ?case
  proof (cases "n < 1000")
    case True
    then have h: "hasNext env stp" using "1.prems"[of 0] by simp
    with True have T: "hasNext env stp \<and> n < 1000" by simp
    have t: "ticks env stp n = stp # ticks env (next' env stp) (n + 1)"
      by (subst ticks.simps) (rule if_P[OF T])
    have "\<And>j. j < 1000 - (n + 1) \<Longrightarrow> hasNext env (((next' env) ^^ j) (next' env stp))"
    proof -
      fix j assume "j < 1000 - (n + 1)"
      then have "Suc j < 1000 - n" by simp
      from "1.prems"[OF this] show "hasNext env (((next' env) ^^ j) (next' env stp))"
        by (simp add: funpow_swap1)
    qed
    from "1.IH"[OF T this] show ?thesis using True by (simp add: t)
  next
    case False
    then have F: "\<not> (hasNext env stp \<and> n < 1000)" by simp
    have "ticks env stp n = []" by (subst ticks.simps) (rule if_not_P[OF F])
    then show ?thesis using False by simp
  qed
qed

lemma xFirstMajorLabel_inRange:
  "xFirstMajorLabel env s c rng =
     (case inRangeMajor env s c (cycleTicks env s c rng) of [] \<Rightarrow> None | t # _ \<Rightarrow> Some (pix env c t))"
  by (simp add: xFirstMajorLabel_def xFirstOf_filter inRangeMajor_def)

lemma edgeCmds_placed:
  "edgeCmds env s c rng =
     (if getOption_showMajorLabels s \<and> edgeLabelPlaced env s c rng
      then [(majorTexts, 0, getLabelMajorAt env (finalCursor env s c rng) (conv_toTime env c 0))]
      else [])"
  by (simp add: edgeCmds_def edgeLabelPlaced_def widthText_def xFirstMajorLabel_inRange
        split: list.splits)

lemma cmdsOf_edge:
  "cmdsOf k (edgeCmds env s c rng) =
     (if k = majorTexts \<and> getOption_showMajorLabels s \<and> edgeLabelPlaced env s c rng
      then [(0, getLabelMajorAt env (finalCursor env s c rng) (conv_toTime env c 0))]
      else [])"
  by (simp add: edgeCmds_placed cmdsOf_def)

lemma cmdsOf_cycle:
  "cmdsOf minorTexts (cycleCmds env s c rng) =
     (if getOption_showMinorLabels s
      then map (\<lambda>t. (pix env c t, getLabelMinor env t)) (cycleTicks env s c rng) else [])"
  "cmdsOf minorLines (cycleCmds env s c rng) =
     map (\<lambda>t. (pix env c t, []))
       (filter (\<lambda>t. \<not> (isMajor env t \<and> getOption_showMajorLabels s)) (cycleTicks env s c rng))"
  "cmdsOf majorLines (cycleCmds env s c rng) =
     map (\<lambda>t. (pix env c t, []))
       (filter (\<lambda>t. isMajor env t \<and> getOption_showMajorLabels s) (cycleTicks env s c rng))"
  "cmdsOf majorTexts (cycleCmds env s c rng) =
     map (\<lambda>t. (pix env c t, getLabelMajor env t)) (inRangeMajor env s c (cycleTicks env s c rng))
       @ (if getOption_showMajorLabels s \<and> edgeLabelPlaced env s c rng
          then [(0, getLabelMajorAt env (finalCursor env s c rng) (conv_toTime env c 0))] else [])"
  by (simp_all add: cycleCmds_def cmdsOf_append loopCmds_def cmdsOf_ticks cmdsOf_edge inRangeMajor_def)

lemma length_cmdsOf_cycle: "length (cmdsOf k (cycleCmds env s c rng)) = emitted env s c rng k"
  by (cases k) (simp_all add: cmdsOf_cycle)

lemma run_conserve:
  "set (dom_active s k) \<union> set (dom_redundant s k)
     \<subseteq> set (dom_active (run orientation cs s) k) \<union> set (dom_redundant (run orientation cs s) k)"
proof (induction cs arbitrary: s)
  case Nil
  then show ?case by simp
next
  case (Cons c cs)
  obtain k' x t where c: "c = (k', x, t)" by (cases c) auto
  have "set (dom_active s k) \<union> set (dom_redundant s k)
          \<subseteq> set (dom_active (placed k' x t orientation s) k)
            \<union> set (dom_redundant (placed k' x t orientation s) k)"
    by (auto simp: placed_def split: list.splits option.splits if_splits)
  also have "\<dots> \<subseteq> set (dom_active (run orientation cs (placed k' x t orientation s)) k)
            \<union> set (dom_redundant (run orientation cs (placed k' x t orientation s)) k)"
    by (rule Cons.IH)
  finally show ?case by (simp add: c)
qed

text \<open>what is known after a successful cycle, in one place\<close>

lemma cycle_facts:
  assumes pa: "pool_at f s" and e: "\<And>k. dom_redundant s k = []"
    and r: "range' s = Some rng"
    and u: "updateConversion env s = Inr (s\<lparr>conversion := Some c\<rparr>)"
  shows "repaintLabels env s = Inr (cycleResult env s c rng)"
    and "pool_at f (cycleResult env s c rng)"
    and "\<And>k. dom_redundant (cycleResult env s c rng) k = []"
    and "\<And>k. settled (getOption_orientation s) (cycleResult env s c rng) k
                 (cmdsOf k (cycleCmds env s c rng))"
    and "\<And>k. length (dom_active (cycleResult env s c rng) k) = emitted env s c rng k"
    and "\<And>k. length (live (cycleResult env s c rng) k) = emitted env s c rng k"
    and "\<And>k. set (live (cycleResult env s c rng) k) = set (dom_active (cycleResult env s c rng) k)"
proof -
  show "repaintLabels env s = Inr (cycleResult env s c rng)"
    using repaintLabels_cycle[OF r u pa e] .
  note ci = cycle_inv[OF pa e, of env c rng]
  show "pool_at f (cycleResult env s c rng)" by (rule ci(1))
  show "\<And>k. dom_redundant (cycleResult env s c rng) k = []" by (rule ci(2))
  show "\<And>k. settled (getOption_orientation s) (cycleResult env s c rng) k
                 (cmdsOf k (cycleCmds env s c rng))" by (rule ci(3))
  show len: "\<And>k. length (dom_active (cycleResult env s c rng) k) = emitted env s c rng k"
    using settled_length[OF ci(3)] by (simp add: length_cmdsOf_cycle)
  show "\<And>k. length (live (cycleResult env s c rng) k) = emitted env s c rng k"
    using live_active(3)[OF ci(1) ci(2)] len by simp
  show "\<And>k. set (live (cycleResult env s c rng) k) = set (dom_active (cycleResult env s c rng) k)"
    using live_active(1)[OF ci(1) ci(2)] .
qed

lemma cycle_retired:
  assumes pa: "pool_at f s" and e: "\<And>k. dom_redundant s k = []"
    and i: "i \<in> set (dom_active s k)" and n: "i \<notin> set (dom_active (cycleResult env s c rng) k)"
  shows "parentNode (document (cycleResult env s c rng) ! i) = None"
proof -
  let ?o = "getOption_orientation s"
  let ?s3 = "beginCycle (s\<lparr>conversion := Some c, step := Some (newStep env s c rng)\<rparr>)"
  let ?s4 = "run ?o (loopCmds env s c rng) ?s3"
  let ?s5 = "?s4\<lparr>step := Some (finalCursor env s c rng)\<rparr>"
  let ?s6 = "run ?o (edgeCmds env s c rng) ?s5"
  have cd: "cycleDirty env s c rng = ?s6" by (simp add: cycleDirty_def)
  have p6: "pool_at f ?s6" using cycle_dirty(1)[OF pa e, of env c rng] by (simp only: cd)
  have cr: "cycleResult env s c rng = cleanup ?s6" by (simp only: cycleResult_def cd)
  have "i \<in> set (dom_active ?s3 k) \<union> set (dom_redundant ?s3 k)" using i by simp
  then have "i \<in> set (dom_active ?s4 k) \<union> set (dom_redundant ?s4 k)"
    using run_conserve[of ?s3 k ?o "loopCmds env s c rng"] by blast
  then have "i \<in> set (dom_active ?s5 k) \<union> set (dom_redundant ?s5 k)" by simp
  then have "i \<in> set (dom_active ?s6 k) \<union> set (dom_redundant ?s6 k)"
    using run_conserve[of ?s5 k ?o "edgeCmds env s c rng"] by blast
  moreover have "i \<notin> set (dom_active ?s6 k)" using n by (simp add: cr cleanup_spec(3)[OF p6])
  ultimately have "i \<in> set (dom_redundant ?s6 k)" by simp
  from cleanup_spec(8)[OF p6 this] show ?thesis by (simp add: cr)
qed

lemma settled_label:
  assumes "settled orientation s k xs" and "isText k"
  shows "map (\<lambda>i. (style_left (document s ! i), nodeValue (document s ! i))) (dom_active s k)
           = map (\<lambda>(x, t). (Px x, Some t)) xs"
  using assms unfolding settled_def
proof (induction rule: list_all2_induct)
  case Nil
  then show ?case by simp
next
  case (Cons i js p ps)
  obtain x t where p: "p = (x, t)" by (cases p)
  from Cons.hyps(1) have e: "paintNode k s x t orientation (document s ! i) = document s ! i"
    by (simp add: p)
  have "leftOf k s x = Px x" using Cons.prems by (cases k) simp_all
  then have "style_left (document s ! i) = Px x"
    using arg_cong[OF e, of style_left] by (simp only: style_left_paintNode)
  moreover have "nodeValue (document s ! i) = Some t"
    using arg_cong[OF e, of nodeValue] Cons.prems by (simp add: nodeValue_paintNode)
  ultimately show ?case using Cons.IH Cons.prems by (simp add: p)
qed

lemma leftOf_run [simp]: "leftOf k (run orientation cs s) = leftOf k s"
proof (induction cs arbitrary: s)
  case Nil
  show ?case by simp
next
  case (Cons c cs)
  obtain k' x t where c: "c = (k', x, t)" by (cases c) auto
  have "leftOf k (placed k' x t orientation s) = leftOf k s"
    by (intro ext, cases k) simp_all
  then show ?case using Cons.IH by (simp add: c)
qed

lemma leftOf_cleanup [simp]: "leftOf k (cleanup s) = leftOf k s"
  by (intro ext, cases k) (simp_all add: cleanup_def)

lemma leftOf_upd [simp]:
  "leftOf k (s\<lparr>step := v\<rparr>) = leftOf k s"
  "leftOf k (s\<lparr>conversion := w\<rparr>) = leftOf k s"
  "leftOf k (beginCycle s) = leftOf k s"
  by (intro ext, cases k, simp_all add: beginCycle_def)+

lemma leftOf_cycleResult [simp]: "leftOf k (cycleResult env s c rng) = leftOf k s"
  by (simp add: cycleResult_def cycleDirty_def)

text \<open>the loop alone, from a state whose active arrays are empty\<close>

lemma loop_facts:
  assumes pa: "pool_at f s" and a: "dom_active s = (\<lambda>k. [])" and cv: "conversion s = Some c"
  shows "tickLoop env orientation stp 0 None s =
           Inr (run orientation (cmdsFor env s c (ticks env stp 0)) s,
                ((next' env) ^^ length (ticks env stp 0)) stp,
                (case inRangeMajor env s c (ticks env stp 0) of [] \<Rightarrow> None
                 | t # _ \<Rightarrow> Some (pix env c t)))"
    and "\<And>k. settled orientation (run orientation (cmdsFor env s c (ticks env stp 0)) s) k
                  (cmdsOf k (cmdsFor env s c (ticks env stp 0)))"
proof -
  have pl: "placeable s" using pa by (rule pool_at_placeable)
  show "tickLoop env orientation stp 0 None s =
           Inr (run orientation (cmdsFor env s c (ticks env stp 0)) s,
                ((next' env) ^^ length (ticks env stp 0)) stp,
                (case inRangeMajor env s c (ticks env stp 0) of [] \<Rightarrow> None
                 | t # _ \<Rightarrow> Some (pix env c t)))"
    using tickLoop_run[OF pl cv, of env orientation stp 0 None]
    by (simp add: cmdsFor_def xFirstOf_filter inRangeMajor_def)
  have st: "\<And>k. settled orientation s k []" by (simp add: settled_def a)
  from run_inv[OF pa st, of "cmdsFor env s c (ticks env stp 0)"]
  show "\<And>k. settled orientation (run orientation (cmdsFor env s c (ticks env stp 0)) s) k
                  (cmdsOf k (cmdsFor env s c (ticks env stp 0)))"
    by simp
qed

subsection \<open>The claims about the tick loop and the pool\<close>

text \<open>
  C1, as amended. The loop, started with empty active arrays in a state whose pool is in
  order, returns. For every tick reported major by the step generator: when
  \<^verbatim>\<open>showMajorLabels\<close> is true, a major gridline is placed at the tick's pixel position
  (centred on it), and a major label is placed there exactly when the position is \<open>> 0\<close>;
  \<^verbatim>\<open>xFirstMajorLabel\<close> is the position of the earliest such label, and undefined when
  there is none. When \<^verbatim>\<open>showMajorLabels\<close> is false, the tick gets a minor gridline
  and neither a major gridline nor a major label.
\<close>

theorem major_ticks_placed:
  assumes "pool_ok s" and "dom_active s = (\<lambda>k. [])" and "conversion s = Some c"
  shows "\<exists>s'. tickLoop env orientation stp 0 None s =
                Inr (s', ((next' env) ^^ length (ticks env stp 0)) stp,
                     (case inRangeMajor env s c (ticks env stp 0) of [] \<Rightarrow> None
                      | t # _ \<Rightarrow> Some (pix env c t)))
     \<and> map (\<lambda>i. style_left (document s' ! i)) (dom_active s' majorLines)
         = map (\<lambda>t. Px (pix env c t - props_majorLineWidth s / 2))
             (filter (\<lambda>t. isMajor env t \<and> getOption_showMajorLabels s) (ticks env stp 0))
     \<and> map (\<lambda>i. (style_left (document s' ! i), nodeValue (document s' ! i))) (dom_active s' majorTexts)
         = map (\<lambda>t. (Px (pix env c t), Some (getLabelMajor env t)))
             (inRangeMajor env s c (ticks env stp 0))
     \<and> map (\<lambda>i. style_left (document s' ! i)) (dom_active s' minorLines)
         = map (\<lambda>t. Px (pix env c t - props_minorLineWidth s / 2))
             (filter (\<lambda>t. \<not> (isMajor env t \<and> getOption_showMajorLabels s)) (ticks env stp 0))"
proof -
  from assms(1) obtain f where pa: "pool_at f s" by (rule pool_okE)
  let ?cs = "cmdsFor env s c (ticks env stp 0)"
  let ?s' = "run orientation ?cs s"
  note lf = loop_facts[OF pa assms(2,3), where env = env and orientation = orientation and stp = stp]
  have ml: "map (\<lambda>i. style_left (document ?s' ! i)) (dom_active ?s' majorLines)
         = map (\<lambda>t. Px (pix env c t - props_majorLineWidth s / 2))
             (filter (\<lambda>t. isMajor env t \<and> getOption_showMajorLabels s) (ticks env stp 0))"
    using settled_left[OF lf(2)[of majorLines]]
    by (simp add: cmdsFor_def cmdsOf_ticks comp_def)
  have nl: "map (\<lambda>i. style_left (document ?s' ! i)) (dom_active ?s' minorLines)
         = map (\<lambda>t. Px (pix env c t - props_minorLineWidth s / 2))
             (filter (\<lambda>t. \<not> (isMajor env t \<and> getOption_showMajorLabels s)) (ticks env stp 0))"
    using settled_left[OF lf(2)[of minorLines]]
    by (simp add: cmdsFor_def cmdsOf_ticks comp_def)
  have mt: "map (\<lambda>i. (style_left (document ?s' ! i), nodeValue (document ?s' ! i))) (dom_active ?s' majorTexts)
         = map (\<lambda>t. (Px (pix env c t), Some (getLabelMajor env t)))
             (inRangeMajor env s c (ticks env stp 0))"
    using settled_label[OF lf(2)[of majorTexts]]
    by (simp add: cmdsFor_def cmdsOf_ticks comp_def inRangeMajor_def)
  show ?thesis
    by (rule exI[of _ ?s']) (simp only: lf(1) ml nl mt simp_thms)
qed

lemma edge_label:
  assumes "pool_ok s" and "dom_redundant s = (\<lambda>k. [])" and "range' s = Some rng"
    and "updateConversion env s = Inr (s\<lparr>conversion := Some c\<rparr>)"
    and "getOption_showMajorLabels s"
  shows "\<exists>s'. repaintLabels env s = Inr s'
     \<and> map (\<lambda>i. (style_left (document s' ! i), nodeValue (document s' ! i))) (dom_active s' majorTexts)
         = map (\<lambda>t. (Px (pix env c t), Some (getLabelMajor env t)))
             (inRangeMajor env s c (cycleTicks env s c rng))
           @ (if edgeLabelPlaced env s c rng
              then [(Px 0, Some (getLabelMajorAt env (finalCursor env s c rng) (conv_toTime env c 0)))]
              else [])
     \<and> ((\<exists>i \<in> set (dom_active s' majorTexts). style_left (document s' ! i) = Px 0)
          \<longleftrightarrow> edgeLabelPlaced env s c rng)"
proof -
  from assms(1) obtain f where pa: "pool_at f s" by (rule pool_okE)
  have e: "\<And>k. dom_redundant s k = []" using assms(2) by simp
  note cf = cycle_facts[OF pa e assms(3,4)]
  let ?s' = "cycleResult env s c rng"
  let ?L = "map (\<lambda>i. (style_left (document ?s' ! i), nodeValue (document ?s' ! i))) (dom_active ?s' majorTexts)"
  have m: "?L = map (\<lambda>t. (Px (pix env c t), Some (getLabelMajor env t)))
             (inRangeMajor env s c (cycleTicks env s c rng))
           @ (if edgeLabelPlaced env s c rng
              then [(Px 0, Some (getLabelMajorAt env (finalCursor env s c rng) (conv_toTime env c 0)))]
              else [])"
    using settled_label[OF cf(4)[of majorTexts]] assms(5)
    by (simp add: cmdsOf_cycle comp_def)
  have pos: "\<And>t. t \<in> set (inRangeMajor env s c (cycleTicks env s c rng)) \<Longrightarrow> pix env c t \<noteq> 0"
    by (auto simp: inRangeMajor_def)
  have "(\<exists>i \<in> set (dom_active ?s' majorTexts). style_left (document ?s' ! i) = Px 0)
          \<longleftrightarrow> Px 0 \<in> fst ` set ?L"
    by (force simp: image_iff)
  also have "\<dots> \<longleftrightarrow> edgeLabelPlaced env s c rng"
    unfolding m using pos by (auto simp: image_iff)
  finally have iff: "(\<exists>i \<in> set (dom_active ?s' majorTexts). style_left (document ?s' ! i) = Px 0)
          \<longleftrightarrow> edgeLabelPlaced env s c rng" .
  show ?thesis
    by (rule exI[of _ ?s']) (simp only: cf(1) m iff simp_thms)
qed

text \<open>
  C4, as amended. When \<^verbatim>\<open>showMajorLabels\<close> is true, \<^verbatim>\<open>_repaintLabels\<close> returns with
  the major labels of the loop (one per major tick whose pixel position is positive,
  at that position) followed by at most one label at pixel 0. That edge label carries the
  step generator's major label for \<^verbatim>\<open>toTime(0)\<close>, the time \<^verbatim>\<open>0 / scale + offset\<close>
  truncated to a whole millisecond, and it is there if and only if no major label was
  placed in the loop or the length of its text times the major glyph width plus 10 is
  strictly smaller than \<^verbatim>\<open>xFirstMajorLabel\<close>, the position of the first major label of
  the loop. The glyph width is the measured one, and 10 when it is unmeasured or was
  measured as 0.
\<close>

theorem leading_edge_label:
  assumes "pool_ok s" and "dom_redundant s = (\<lambda>k. [])" and "range' s = Some rng"
    and "updateConversion env s = Inr (s\<lparr>conversion := Some c\<rparr>)"
    and "getOption_showMajorLabels s"
  shows "\<exists>s'. repaintLabels env s = Inr s' \<and>
     (let px = (\<lambda>t. fl env (fl env (real_of_int (getCurrent env t) - offset c) * scale c));
          majors = filter (\<lambda>t. isMajor env t \<and> 0 < px t) (cycleTicks env s c rng);
          v = fl env (fl env (0 / scale c) + offset c);
          leftTime = (if scale c = 0 \<or> 8640000000000000 < \<bar>v\<bar> then InvalidDate
                      else Instant (if 0 \<le> v then \<lfloor>v\<rfloor> else \<lceil>v\<rceil>));
          leftText = getLabelMajorAt env (finalCursor env s c rng) leftTime;
          glyph = (case props_majorCharWidth s of None \<Rightarrow> 10 | Some w \<Rightarrow> if w = 0 then 10 else w);
          edge = (majors = [] \<or> real (length leftText) * glyph + 10 < px (hd majors))
      in map (\<lambda>i. (style_left (document s' ! i), nodeValue (document s' ! i)))
             (dom_active s' majorTexts)
           = map (\<lambda>t. (Px (px t), Some (getLabelMajor env t))) majors
             @ (if edge then [(Px 0, Some leftText)] else [])
         \<and> ((\<exists>i \<in> set (dom_active s' majorTexts). style_left (document s' ! i) = Px 0)
              \<longleftrightarrow> edge))"
proof -
  define px where "px = (\<lambda>t. fl env (fl env (real_of_int (getCurrent env t) - offset c) * scale c))"
  define majors where "majors = filter (\<lambda>t. isMajor env t \<and> 0 < px t) (cycleTicks env s c rng)"
  define v where "v = fl env (fl env (0 / scale c) + offset c)"
  define leftTime where "leftTime = (if scale c = 0 \<or> 8640000000000000 < \<bar>v\<bar> then InvalidDate
                      else Instant (if 0 \<le> v then \<lfloor>v\<rfloor> else \<lceil>v\<rceil>))"
  define leftText where "leftText = getLabelMajorAt env (finalCursor env s c rng) leftTime"
  define glyph where "glyph = (case props_majorCharWidth s of None \<Rightarrow> 10 | Some w \<Rightarrow> if w = 0 then (10::real) else w)"
  define edge where "edge = (majors = [] \<or> real (length leftText) * glyph + 10 < px (hd majors))"
  have p: "pix env c = px" by (intro ext) (simp add: pix_def conv_toScreen_def px_def)
  have m: "inRangeMajor env s c (cycleTicks env s c rng) = majors"
    using assms(5) by (simp add: inRangeMajor_def majors_def p)
  have t: "conv_toTime env c 0 = leftTime"
    by (simp add: conv_toTime_def newDate_def leftTime_def v_def not_le)
  have g: "orDefault (props_majorCharWidth s) 10 = glyph"
    by (simp add: orDefault_def glyph_def)
  have ed: "edgeLabelPlaced env s c rng = edge"
    unfolding edgeLabelPlaced_def m t g p edge_def leftText_def
    by (cases majors) simp_all
  from edge_label[OF assms] obtain s' where r: "repaintLabels env s = Inr s'"
    and l: "map (\<lambda>i. (style_left (document s' ! i), nodeValue (document s' ! i)))
             (dom_active s' majorTexts)
           = map (\<lambda>t. (Px (px t), Some (getLabelMajor env t))) majors
             @ (if edge then [(Px 0, Some leftText)] else [])"
    and i: "(\<exists>i \<in> set (dom_active s' majorTexts). style_left (document s' ! i) = Px 0)
              \<longleftrightarrow> edge"
    unfolding m t ed p leftText_def by blast
  show ?thesis
    apply (rule exI[of _ s'])
    apply (rule conjI[OF r])
    apply (fold px_def)
    apply (unfold Let_def)
    apply (fold majors_def v_def)
    apply (fold leftTime_def)
    apply (fold leftText_def glyph_def)
    apply (fold edge_def)
    apply (rule conjI[OF l i])
    done
qed

text \<open>
  C3. After a cycle that starts with the pool in order and the redundant arrays empty,
  the number of live elements of every kind is the number of elements of that kind placed
  in the cycle; the live elements are the active ones; the redundant arrays are empty, so
  no element is in both; an element that was active before and has not been reused is
  detached from the frame; and the pool is in order again.
\<close>

theorem pool_conservation:
  assumes "pool_ok s" and "dom_redundant s = (\<lambda>k. [])" and "range' s = Some rng"
    and "updateConversion env s = Inr (s\<lparr>conversion := Some c\<rparr>)"
  shows "\<exists>s'. repaintLabels env s = Inr s' \<and> pool_ok s'
     \<and> (\<forall>k. length (live s' k) = emitted env s c rng k
            \<and> set (live s' k) = set (dom_active s' k)
            \<and> dom_redundant s' k = []
            \<and> (\<forall>i \<in> set (dom_active s k). i \<notin> set (dom_active s' k) \<longrightarrow>
                  parentNode (document s' ! i) = None \<and> i \<notin> set (live s' k)))"
proof -
  from assms(1) obtain f where pa: "pool_at f s" by (rule pool_okE)
  have e: "\<And>k. dom_redundant s k = []" using assms(2) by simp
  note cf = cycle_facts[OF pa e assms(3,4)]
  let ?s' = "cycleResult env s c rng"
  have ok: "pool_ok ?s'" using cf(2) by (rule pool_okI)
  have ret: "\<And>k i. i \<in> set (dom_active s k) \<Longrightarrow> i \<notin> set (dom_active ?s' k) \<Longrightarrow>
                  parentNode (document ?s' ! i) = None \<and> i \<notin> set (live ?s' k)"
    using cycle_retired[OF pa e] cf(7) by simp
  show ?thesis
    apply (rule exI[of _ ?s'])
    apply (intro conjI allI ballI impI)
          apply (rule cf(1))
         apply (rule ok)
        apply (rule cf(6))
       apply (rule cf(7))
      apply (rule cf(3))
     apply (simp add: ret)
    apply (simp add: ret)
    done
qed

text \<open>
  C5, as amended. \<^verbatim>\<open>_repaintLabels\<close> returns, and its loop processes at most 1000
  ticks, exactly 1000 when the step generator has a next tick at each of the first 1000
  cursor positions. It leaves one minor label per processed tick when minor labels are
  shown, one gridline per processed tick (major and minor gridlines together), and at most
  one major label per processed tick plus the label of the left edge.
\<close>

theorem tick_cap:
  assumes "pool_ok s" and "dom_redundant s = (\<lambda>k. [])" and "range' s = Some rng"
    and "updateConversion env s = Inr (s\<lparr>conversion := Some c\<rparr>)"
  shows "\<exists>s'. repaintLabels env s = Inr s'
     \<and> length (cycleTicks env s c rng) \<le> 1000
     \<and> ((\<forall>j < 1000. hasNext env (((next' env) ^^ j) (first env (newStep env s c rng))))
          \<longrightarrow> length (cycleTicks env s c rng) = 1000)
     \<and> length (dom_active s' minorTexts)
          = (if getOption_showMinorLabels s then length (cycleTicks env s c rng) else 0)
     \<and> length (dom_active s' majorLines) + length (dom_active s' minorLines)
          = length (cycleTicks env s c rng)
     \<and> length (dom_active s' majorTexts) \<le> length (cycleTicks env s c rng) + 1"
proof -
  from assms(1) obtain f where pa: "pool_at f s" by (rule pool_okE)
  have e: "\<And>k. dom_redundant s k = []" using assms(2) by simp
  note cf = cycle_facts[OF pa e assms(3,4)]
  let ?s' = "cycleResult env s c rng"
  let ?ts = "cycleTicks env s c rng"
  have le: "length ?ts \<le> 1000"
    using length_ticks_le[of env "first env (newStep env s c rng)" 0] by (simp add: cycleTicks_def)
  have full: "(\<forall>j < 1000. hasNext env (((next' env) ^^ j) (first env (newStep env s c rng))))
          \<longrightarrow> length ?ts = 1000"
    using length_ticks_full[of 0 env "first env (newStep env s c rng)"] by (simp add: cycleTicks_def)
  have a: "length (dom_active ?s' minorTexts) = (if getOption_showMinorLabels s then length ?ts else 0)"
    by (simp add: cf(5))
  have b: "length (dom_active ?s' majorLines) + length (dom_active ?s' minorLines) = length ?ts"
    using sum_length_filter_compl[of "\<lambda>t. isMajor env t \<and> getOption_showMajorLabels s" ?ts]
    by (simp add: cf(5))
  have "length (inRangeMajor env s c ?ts) \<le> length ?ts" by (simp add: inRangeMajor_def)
  then have d: "length (dom_active ?s' majorTexts) \<le> length ?ts + 1"
    by (simp add: cf(5))
  show ?thesis
    apply (rule exI[of _ ?s'])
    apply (intro conjI)
         apply (rule cf(1))
        apply (rule le)
       apply (rule full)
      apply (rule a)
     apply (rule b)
    apply (rule d)
    done
qed

lemma pool_at_offline: "pool_at 1 offline" "pool_at 1 hiddenMajor"
  by (simp_all add: pool_at_def offline_def hiddenMajor_def fresh_def TimeAxis_def blank_def)

lemma pool_ok_offline: "pool_ok offline" "pool_ok hiddenMajor"
  by (rule pool_okI[OF pool_at_offline(1)]) (rule pool_okI[OF pool_at_offline(2)])

lemma redundant_offline: "dom_redundant offline = (\<lambda>k. [])" "dom_redundant hiddenMajor = (\<lambda>k. [])"
  by (simp_all add: offline_def hiddenMajor_def fresh_def TimeAxis_def)

lemma range_offline: "range' offline = Some rng100" "range' hiddenMajor = Some rng100"
  by (simp_all add: offline_def hiddenMajor_def)

lemma update_offline:
  "updateConversion env3 offline = Inr (offline\<lparr>conversion := Some conv1\<rparr>)"
  "updateConversion envAll offline = Inr (offline\<lparr>conversion := Some conv1\<rparr>)"
  "updateConversion env3 hiddenMajor = Inr (hiddenMajor\<lparr>conversion := Some conv1\<rparr>)"
  by (simp_all add: updateConversion_def offline_def hiddenMajor_def rng100_def env3_def envAll_def
        numOf_def conv1_def)

lemma options_offline:
  "getOption_showMajorLabels offline" "getOption_showMinorLabels offline"
  "\<not> getOption_showMajorLabels hiddenMajor" "getOption_showMinorLabels hiddenMajor"
  by (simp_all add: getOption_showMajorLabels_def getOption_showMinorLabels_def offline_def
        hiddenMajor_def fresh_def TimeAxis_def opts0_def)

lemma env3_cursor:
  "hasNext env3 c = (c < 3)" "next' env3 c = Suc c" "first env3 c = 0"
  "hasNext envAll c" "next' envAll c = Suc c" "first envAll c = 0"
  by (simp_all add: env3_def envAll_def)

lemma ticks_env3: "ticks env3 0 0 = [0, 1, 2]"
proof -
  have a: "ticks env3 0 0 = 0 # ticks env3 (Suc 0) (Suc 0)"
    by (subst ticks.simps) (simp add: env3_cursor)
  have b: "ticks env3 (Suc 0) (Suc 0) = Suc 0 # ticks env3 (Suc (Suc 0)) (Suc (Suc 0))"
    by (subst ticks.simps) (simp add: env3_cursor)
  have c: "ticks env3 (Suc (Suc 0)) (Suc (Suc 0))
             = Suc (Suc 0) # ticks env3 (Suc (Suc (Suc 0))) (Suc (Suc (Suc 0)))"
    by (subst ticks.simps) (simp add: env3_cursor)
  have d: "ticks env3 (Suc (Suc (Suc 0))) (Suc (Suc (Suc 0))) = []"
    by (subst ticks.simps) (simp add: env3_cursor)
  show ?thesis by (simp add: a b c d numeral_2_eq_2)
qed

lemma cycleTicks_env3:
  "cycleTicks env3 offline conv1 rng100 = [0, 1, 2]"
  "cycleTicks env3 hiddenMajor conv1 rng100 = [0, 1, 2]"
proof -
  show "cycleTicks env3 offline conv1 rng100 = [0, 1, 2]"
    "cycleTicks env3 hiddenMajor conv1 rng100 = [0, 1, 2]"
    by (simp_all add: cycleTicks_def ticks_env3 env3_cursor)
qed

lemma env3_ticks_facts:
  "isMajor env3 t = (t = 1)" "pix env3 conv1 t = real t * 30"
  "getLabelMajor env3 t = ''M''" "getLabelMajorAt env3 t (Instant 0) = ''LL''"
  "getLabelMinor env3 t = ''m''" "conv_toTime env3 conv1 0 = Instant 0"
  "conv_toTime envAll conv1 0 = Instant 0" "getLabelMajorAt envAll t (Instant 0) = ''LL''"
  by (simp_all add: env3_def envAll_def pix_def conv_toScreen_def conv_toTime_def conv1_def newDate_def)

lemma length_ticks_envAll: "length (cycleTicks envAll offline conv1 rng100) = 1000"
  using length_ticks_full[of 0 envAll 0]
  by (simp add: cycleTicks_def env3_cursor)

lemma hd_ticks_envAll: "\<exists>ts. cycleTicks envAll offline conv1 rng100 = 0 # ts"
proof -
  have "ticks envAll 0 0 = 0 # ticks envAll (next' envAll 0) (0 + 1)"
    by (subst ticks.simps) (simp add: env3_cursor)
  then show ?thesis by (simp add: cycleTicks_def env3_cursor)
qed

lemma inRange_envAll:
  "inRangeMajor envAll offline conv1 ts = ts"
  by (simp add: inRangeMajor_def options_offline envAll_def env3_def pix_def conv_toScreen_def conv1_def)

lemma edge_envAll: "edgeLabelPlaced envAll offline conv1 rng100"
proof -
  from hd_ticks_envAll obtain ts where t: "cycleTicks envAll offline conv1 rng100 = 0 # ts" by blast
  show ?thesis
    by (simp add: edgeLabelPlaced_def inRange_envAll t)
       (simp add: envAll_def env3_def pix_def conv_toScreen_def conv1_def orDefault_def offline_def)
qed

lemma stateOf_Inr: "r = Inr s \<Longrightarrow> stateOf r = s"
  by (simp add: stateOf_def)

theorem major_ticks_placed_witness:
  "\<exists>s'. tickLoop env3 ''bottom'' 0 0 None (offline\<lparr>conversion := Some conv1\<rparr>) = Inr (s', 3, Some 30)
     \<and> map (\<lambda>i. style_left (document s' ! i)) (dom_active s' majorLines) = [Px 30]
     \<and> map (\<lambda>i. (style_left (document s' ! i), nodeValue (document s' ! i))) (dom_active s' majorTexts)
         = [(Px 30, Some ''M'')]
     \<and> map (\<lambda>i. style_left (document s' ! i)) (dom_active s' minorLines) = [Px 0, Px 60]"
proof -
  have p: "pool_ok (offline\<lparr>conversion := Some conv1\<rparr>)"
    using pool_at_offline(1) by (intro pool_okI[of 1]) simp
  have a: "dom_active (offline\<lparr>conversion := Some conv1\<rparr>) = (\<lambda>k. [])"
    by (simp add: offline_def fresh_def TimeAxis_def)
  have c: "conversion (offline\<lparr>conversion := Some conv1\<rparr>) = Some conv1" by simp
  have n: "next' env3 = Suc" by (simp add: env3_def)
  have w: "props_majorLineWidth offline = 0" "props_minorLineWidth offline = 0"
    by (simp_all add: offline_def fresh_def TimeAxis_def)
  show ?thesis
    using major_ticks_placed[OF p a c, of env3 "''bottom''" 0] options_offline(1)
    apply (simp add: ticks_env3 inRangeMajor_def env3_ticks_facts n w)
    apply (elim exE conjE)
    subgoal for s'
      apply (rule exI[of _ s'])
      apply (simp add: numeral_3_eq_3)
      done
    done
qed

theorem tick_cap_witness:
  "\<exists>s'. repaintLabels envAll offline = Inr s'
     \<and> length (dom_active s' minorTexts) = 1000
     \<and> length (dom_active s' majorLines) + length (dom_active s' minorLines) = 1000
     \<and> length (dom_active s' majorTexts) \<le> 1001"
proof -
  have o: "getOption_showMinorLabels offline" by (rule options_offline(2))
  from tick_cap[OF pool_ok_offline(1) redundant_offline(1) range_offline(1) update_offline(2)]
  show ?thesis
    apply (simp add: env3_cursor o)
    apply (elim exE conjE)
    subgoal for s'
      apply (rule exI[of _ s'])
      apply simp
      done
    done
qed

text \<open>C1 as stated fails: with \<^verbatim>\<open>showMajorLabels\<close> false, the major tick at pixel 30
  gets a minor gridline, and no major gridline is placed.\<close>

theorem major_tick_hidden_counterexample:
  "hasNext env3 1 \<and> isMajor env3 1 \<and> getCurrent env3 1 = 30
   \<and> \<not> getOption_showMajorLabels hiddenMajor
   \<and> repaintLabels env3 hiddenMajor = Inr (stateOf (repaintLabels env3 hiddenMajor))
   \<and> dom_active (stateOf (repaintLabels env3 hiddenMajor)) majorLines = []
   \<and> dom_active (stateOf (repaintLabels env3 hiddenMajor)) majorTexts = []
   \<and> length (dom_active (stateOf (repaintLabels env3 hiddenMajor)) minorLines) = 3
   \<and> style_left (document (stateOf (repaintLabels env3 hiddenMajor))
                   ! (dom_active (stateOf (repaintLabels env3 hiddenMajor)) minorLines ! 1)) = Px 30"
proof -
  have e: "\<And>k. dom_redundant hiddenMajor k = []" by (simp add: redundant_offline)
  note cf = cycle_facts[OF pool_at_offline(2) e range_offline(2) update_offline(3)]
  let ?S = "cycleResult env3 hiddenMajor conv1 rng100"
  have S: "stateOf (repaintLabels env3 hiddenMajor) = ?S" using cf(1) by (rule stateOf_Inr)
  have w: "props_minorLineWidth hiddenMajor = 0"
    by (simp add: hiddenMajor_def offline_def fresh_def TimeAxis_def)
  have l0: "length (dom_active ?S majorLines) = 0" "length (dom_active ?S majorTexts) = 0"
    by (simp_all add: cf(5) options_offline inRangeMajor_def)
  have l3: "length (dom_active ?S minorLines) = 3"
    by (simp add: cf(5) options_offline cycleTicks_env3)
  have "map (\<lambda>i. style_left (document ?S ! i)) (dom_active ?S minorLines) = [Px 0, Px 30, Px 60]"
    using settled_left[OF cf(4)[of minorLines]]
    by (simp add: cmdsOf_cycle options_offline cycleTicks_env3 env3_ticks_facts w)
  then have "map (\<lambda>i. style_left (document ?S ! i)) (dom_active ?S minorLines) ! 1 = Px 30"
    by simp
  then have p: "style_left (document ?S ! (dom_active ?S minorLines ! 1)) = Px 30"
    using l3 by simp
  show ?thesis
    unfolding S using cf(1) l0 l3 p options_offline(3)
    by (simp add: env3_def)
qed

text \<open>C5 as stated fails: with both kinds of labels shown and an endless run of major
  ticks, the repaint leaves 1001 major labels (1000 of the loop and the label of the left
  edge) and no minor gridline.\<close>

theorem cap_all_major_counterexample:
  "getOption_showMinorLabels offline \<and> getOption_showMajorLabels offline
   \<and> repaintLabels envAll offline = Inr (stateOf (repaintLabels envAll offline))
   \<and> length (live (stateOf (repaintLabels envAll offline)) minorTexts) = 1000
   \<and> length (live (stateOf (repaintLabels envAll offline)) majorTexts) = 1001
   \<and> length (live (stateOf (repaintLabels envAll offline)) majorLines) = 1000
   \<and> length (live (stateOf (repaintLabels envAll offline)) minorLines) = 0"
proof -
  have e: "\<And>k. dom_redundant offline k = []" by (simp add: redundant_offline)
  note cf = cycle_facts[OF pool_at_offline(1) e range_offline(1) update_offline(2)]
  let ?S = "cycleResult envAll offline conv1 rng100"
  have S: "stateOf (repaintLabels envAll offline) = ?S" using cf(1) by (rule stateOf_Inr)
  have m: "isMajor envAll = (\<lambda>c. True)" by (simp add: envAll_def)
  show ?thesis
    unfolding S using cf(1)
    by (simp add: cf(6) options_offline inRange_envAll edge_envAll length_ticks_envAll m)
qed

subsection \<open>\<^verbatim>\<open>repaint\<close> is the composition of its parts\<close>

lemma repaint_split:
  "repaint env s0 =
     (let (f, s1) = firstFrame s0 in
      andThen (attached f (named env f s1)) (\<lambda>s4.
        case parentNode (document s4 ! f) of
          None \<Rightarrow> Inr s4
        | Some p \<Rightarrow> andThen (calculateCharSize env s4) (painted env f p)))"
  unfolding repaint_def firstFrame_def named_def attached_def painted_def sized_def styled_def
    online_def Let_def
  by (rule refl)

subsection \<open>Moving the frame out of its parent and back\<close>



lemma detach_detached: "parentNode (d ! c) = None \<Longrightarrow> detach c d = d"
  by (simp add: detach_def)

lemma appendChild_detached:
  assumes "parentNode (d ! c) = None"
  shows "appendChild p c d =
           d[p := (d ! p)\<lparr>childNodes := childNodes (d ! p) @ [c]\<rparr>,
             c := (d[p := (d ! p)\<lparr>childNodes := childNodes (d ! p) @ [c]\<rparr>] ! c)\<lparr>parentNode := Some p\<rparr>]"
  using assms by (simp add: appendChild_def detach_detached Let_def)


lemma node_upd_same:
  "parentNode n = v \<Longrightarrow> n\<lparr>parentNode := v\<rparr> = n"
  "childNodes n = cs \<Longrightarrow> n\<lparr>childNodes := cs\<rparr> = n"
  "className n = cl \<Longrightarrow> n\<lparr>className := cl\<rparr> = n"
  by (cases n; simp)+



subsection \<open>A second cycle replays the first\<close>






subsection \<open>What a cycle leaves alone\<close>

lemma cfg_upd [simp]:
  "cfg (s\<lparr>document := d\<rparr>) = cfg s"
  "cfg (s\<lparr>dom_active := a\<rparr>) = cfg s"
  "cfg (s\<lparr>dom_redundant := r\<rparr>) = cfg s"
  "cfg (s\<lparr>dom_line := l\<rparr>) = cfg s"
  "cfg (s\<lparr>conversion := c\<rparr>) = cfg s"
  "cfg (s\<lparr>step := v\<rparr>) = cfg s"
  by (simp_all add: cfg_def)

lemma cfg_eqD:
  assumes "cfg s' = cfg s"
  shows "options s' = options s" and "parent s' = parent s" and "frame s' = frame s"
    and "range' s' = range' s" and "width s' = width s" and "height s' = height s"
    and "props_minorCharHeight s' = props_minorCharHeight s"
    and "props_minorCharWidth s' = props_minorCharWidth s"
    and "props_majorCharHeight s' = props_majorCharHeight s"
    and "props_majorCharWidth s' = props_majorCharWidth s"
    and "props_minorLabelHeight s' = props_minorLabelHeight s"
    and "props_majorLabelHeight s' = props_majorLabelHeight s"
    and "props_minorLineHeight s' = props_minorLineHeight s"
    and "props_minorLineWidth s' = props_minorLineWidth s"
    and "props_majorLineHeight s' = props_majorLineHeight s"
    and "props_majorLineWidth s' = props_majorLineWidth s"
proof -
  show "options s' = options s" using arg_cong[OF assms, of options] by (simp add: cfg_def)
  show "parent s' = parent s" using arg_cong[OF assms, of parent] by (simp add: cfg_def)
  show "frame s' = frame s" using arg_cong[OF assms, of frame] by (simp add: cfg_def)
  show "range' s' = range' s" using arg_cong[OF assms, of range'] by (simp add: cfg_def)
  show "width s' = width s" using arg_cong[OF assms, of width] by (simp add: cfg_def)
  show "height s' = height s" using arg_cong[OF assms, of height] by (simp add: cfg_def)
  show "props_minorCharHeight s' = props_minorCharHeight s"
    using arg_cong[OF assms, of props_minorCharHeight] by (simp add: cfg_def)
  show "props_minorCharWidth s' = props_minorCharWidth s"
    using arg_cong[OF assms, of props_minorCharWidth] by (simp add: cfg_def)
  show "props_majorCharHeight s' = props_majorCharHeight s"
    using arg_cong[OF assms, of props_majorCharHeight] by (simp add: cfg_def)
  show "props_majorCharWidth s' = props_majorCharWidth s"
    using arg_cong[OF assms, of props_majorCharWidth] by (simp add: cfg_def)
  show "props_minorLabelHeight s' = props_minorLabelHeight s"
    using arg_cong[OF assms, of props_minorLabelHeight] by (simp add: cfg_def)
  show "props_majorLabelHeight s' = props_majorLabelHeight s"
    using arg_cong[OF assms, of props_majorLabelHeight] by (simp add: cfg_def)
  show "props_minorLineHeight s' = props_minorLineHeight s"
    using arg_cong[OF assms, of props_minorLineHeight] by (simp add: cfg_def)
  show "props_minorLineWidth s' = props_minorLineWidth s"
    using arg_cong[OF assms, of props_minorLineWidth] by (simp add: cfg_def)
  show "props_majorLineHeight s' = props_majorLineHeight s"
    using arg_cong[OF assms, of props_majorLineHeight] by (simp add: cfg_def)
  show "props_majorLineWidth s' = props_majorLineWidth s"
    using arg_cong[OF assms, of props_majorLineWidth] by (simp add: cfg_def)
qed

lemma cfg_getOption:
  assumes "cfg s' = cfg s"
  shows "getOption_orientation s' = getOption_orientation s"
    and "getOption_showMinorLabels s' = getOption_showMinorLabels s"
    and "getOption_showMajorLabels s' = getOption_showMajorLabels s"
  using cfg_eqD(1)[OF assms]
  by (simp_all add: getOption_orientation_def getOption_showMinorLabels_def getOption_showMajorLabels_def)


lemma cfg_placed [simp]: "cfg (placed k x t orientation s) = cfg s"
  by (simp add: placed_def split: list.splits option.splits)

lemma cfg_run [simp]: "cfg (run orientation cs s) = cfg s"
  by (induction cs arbitrary: s) auto

lemma cfg_cleanup [simp]: "cfg (cleanup s) = cfg s"
  by (simp add: cleanup_def)

lemma cfg_beginCycle [simp]: "cfg (beginCycle s) = cfg s"
  by (simp add: beginCycle_def)

lemma cfg_cycleResult [simp]: "cfg (cycleResult env s c rng) = cfg s"
  by (simp add: cycleResult_def cycleDirty_def)


lemma updateConversion_same:
  assumes u: "updateConversion env s = Inr s1" and c: "conversion s1 = Some c"
    and r: "range' s' = range' s" and w: "width s' = width s"
  shows "updateConversion env s' = Inr (s'\<lparr>conversion := Some c\<rparr>)"
proof (cases "range' s")
  case None
  then show ?thesis using u by (simp add: updateConversion_def)
next
  case (Some rng)
  show ?thesis
  proof (cases "getProp rng ''conversion''")
    case (JFun g)
    have "s1 = s\<lparr>conversion := Some (g (width s))\<rparr>"
      using u by (simp add: updateConversion_def Some JFun)
    hence "g (width s) = c" using c by simp
    then show ?thesis by (simp add: updateConversion_def Some JFun r w)
  next
    case JUndefined
    have "s1 = s\<lparr>conversion := Some (Range_conversion env (getProp rng ''start'') (getProp rng ''end'') (width s))\<rparr>"
      using u by (simp add: updateConversion_def Some JUndefined split: if_splits)
    hence "Range_conversion env (getProp rng ''start'') (getProp rng ''end'') (width s) = c"
      using c by simp
    then show ?thesis using u by (simp add: updateConversion_def Some JUndefined r w split: if_splits)
  next
    case JNull
    have "s1 = s\<lparr>conversion := Some (Range_conversion env (getProp rng ''start'') (getProp rng ''end'') (width s))\<rparr>"
      using u by (simp add: updateConversion_def Some JNull split: if_splits)
    hence "Range_conversion env (getProp rng ''start'') (getProp rng ''end'') (width s) = c"
      using c by simp
    then show ?thesis using u by (simp add: updateConversion_def Some JNull r w split: if_splits)
  next
    case (JBool b)
    have t: "\<not> truthy (JBool b)" using u by (simp add: updateConversion_def Some JBool split: if_splits)
    have "s1 = s\<lparr>conversion := Some (Range_conversion env (getProp rng ''start'') (getProp rng ''end'') (width s))\<rparr>"
      using u by (simp add: updateConversion_def Some JBool split: if_splits)
    hence "Range_conversion env (getProp rng ''start'') (getProp rng ''end'') (width s) = c"
      using c by simp
    then show ?thesis using t by (simp add: updateConversion_def Some JBool r w)
  next
    case (JNum b)
    have t: "\<not> truthy (JNum b)" using u by (simp add: updateConversion_def Some JNum split: if_splits)
    have "s1 = s\<lparr>conversion := Some (Range_conversion env (getProp rng ''start'') (getProp rng ''end'') (width s))\<rparr>"
      using u by (simp add: updateConversion_def Some JNum split: if_splits)
    hence "Range_conversion env (getProp rng ''start'') (getProp rng ''end'') (width s) = c"
      using c by simp
    then show ?thesis using t by (simp add: updateConversion_def Some JNum r w)
  next
    case JNaN
    have t: "\<not> truthy JNaN" using u by (simp add: updateConversion_def Some JNaN split: if_splits)
    have "s1 = s\<lparr>conversion := Some (Range_conversion env (getProp rng ''start'') (getProp rng ''end'') (width s))\<rparr>"
      using u by (simp add: updateConversion_def Some JNaN split: if_splits)
    hence "Range_conversion env (getProp rng ''start'') (getProp rng ''end'') (width s) = c"
      using c by simp
    then show ?thesis using t by (simp add: updateConversion_def Some JNaN r w)
  next
    case (JStr b)
    have t: "\<not> truthy (JStr b)" using u by (simp add: updateConversion_def Some JStr split: if_splits)
    have "s1 = s\<lparr>conversion := Some (Range_conversion env (getProp rng ''start'') (getProp rng ''end'') (width s))\<rparr>"
      using u by (simp add: updateConversion_def Some JStr split: if_splits)
    hence "Range_conversion env (getProp rng ''start'') (getProp rng ''end'') (width s) = c"
      using c by simp
    then show ?thesis using t by (simp add: updateConversion_def Some JStr r w)
  next
    case (JDate b)
    have t: "\<not> truthy (JDate b)" using u by (simp add: updateConversion_def Some JDate split: if_splits)
    have "s1 = s\<lparr>conversion := Some (Range_conversion env (getProp rng ''start'') (getProp rng ''end'') (width s))\<rparr>"
      using u by (simp add: updateConversion_def Some JDate split: if_splits)
    hence "Range_conversion env (getProp rng ''start'') (getProp rng ''end'') (width s) = c"
      using c by simp
    then show ?thesis using t by (simp add: updateConversion_def Some JDate r w)
  next
    case (JObj a b)
    have t: "\<not> truthy (JObj a b)" using u by (simp add: updateConversion_def Some JObj split: if_splits)
    have "s1 = s\<lparr>conversion := Some (Range_conversion env (getProp rng ''start'') (getProp rng ''end'') (width s))\<rparr>"
      using u by (simp add: updateConversion_def Some JObj split: if_splits)
    hence "Range_conversion env (getProp rng ''start'') (getProp rng ''end'') (width s) = c"
      using c by simp
    then show ?thesis using t by (simp add: updateConversion_def Some JObj r w)
  qed
qed

lemma redundant_run_subset:
  "set (dom_redundant (run orientation cs s) k) \<subseteq> set (dom_redundant s k)"
proof (induction cs arbitrary: s)
  case Nil
  then show ?case by simp
next
  case (Cons c cs)
  obtain k' x t where c: "c = (k', x, t)" by (cases c) auto
  show ?case
    using Cons.IH[of "placed k' x t orientation s"] redundant_placed_subset[of k' x t orientation s k]
    by (simp add: c)
qed

lemma dom_line_run [simp]: "dom_line (run orientation cs s) = dom_line s"
  by (induction cs arbitrary: s) auto

lemma step_run [simp]: "step (run orientation cs s) = step s"
  by (induction cs arbitrary: s) auto

lemma cycle_fields:
  "dom_line (cycleResult env s c rng) = dom_line s"
  "conversion (cycleResult env s c rng) = Some c"
  "step (cycleResult env s c rng) = Some (finalCursor env s c rng)"
  by (simp_all add: cycleResult_def cycleDirty_def cleanup_detachAll)

lemma cycle_nodes:
  assumes pa: "pool_at f s" and e: "\<And>k. dom_redundant s k = []"
  shows "length (document s) \<le> length (document (cycleResult env s c rng))"
    and "\<exists>cs. document (cycleResult env s c rng) ! f = (document s ! f)\<lparr>childNodes := cs\<rparr>"
    and "\<And>j. j < length (document s) \<Longrightarrow> j \<noteq> f \<Longrightarrow> (\<And>k. j \<notin> set (dom_active s k))
           \<Longrightarrow> document (cycleResult env s c rng) ! j = document s ! j"
    and "\<And>j. j \<in> set (childNodes (document s ! f)) \<Longrightarrow> (\<And>k. j \<notin> set (dom_active s k))
           \<Longrightarrow> j \<in> set (childNodes (document (cycleResult env s c rng) ! f))"
proof -
  let ?o = "getOption_orientation s"
  let ?s3 = "beginCycle (s\<lparr>conversion := Some c, step := Some (newStep env s c rng)\<rparr>)"
  let ?s4 = "run ?o (loopCmds env s c rng) ?s3"
  let ?s5 = "?s4\<lparr>step := Some (finalCursor env s c rng)\<rparr>"
  let ?s6 = "run ?o (edgeCmds env s c rng) ?s5"
  have cd: "cycleDirty env s c rng = ?s6" by (simp add: cycleDirty_def)
  have cr: "cycleResult env s c rng = cleanup ?s6" by (simp only: cycleResult_def cd)
  have p3: "pool_at f ?s3" using pa e by (intro pool_at_beginCycle) simp_all
  have st3: "\<And>k. settled ?o ?s3 k []" by (rule settled_begin)
  from run_inv[OF p3 st3, of "loopCmds env s c rng"]
  have p4: "pool_at f ?s4" by simp
  have p5: "pool_at f ?s5" using p4 by simp
  have p6: "pool_at f ?s6" using cycle_dirty(1)[OF pa e, of env c rng] by (simp only: cd)
  have d3: "document ?s3 = document s" by simp
  have d5: "document ?s5 = document ?s4" by simp
  have x4: "extends f (document s) (document ?s4)"
    using extends_run[OF p3, of ?o "loopCmds env s c rng"] by (simp only: d3)
  have x6: "extends f (document ?s4) (document ?s6)"
    using extends_run[OF p5, of ?o "edgeCmds env s c rng"] by (simp only: d5)
  have x: "extends f (document s) (document ?s6)" using x4 x6 by (rule extends_trans)
  then obtain new where len: "length (document s) \<le> length (document ?s6)"
    and n6: "document ?s6 ! f = (document s ! f)\<lparr>childNodes := childNodes (document s ! f) @ new\<rparr>"
    unfolding extends_def by blast
  show "length (document s) \<le> length (document (cycleResult env s c rng))"
    using len by (simp only: cr cleanup_spec(6)[OF p6])
  have f6: "document (cleanup ?s6) ! f =
      (document ?s6 ! f)\<lparr>childNodes := filter (\<lambda>j. j \<notin> (\<Union>k. set (dom_redundant ?s6 k))) (childNodes (document ?s6 ! f))\<rparr>"
    by (rule cleanup_spec(7)[OF p6])
  show "\<exists>cs. document (cycleResult env s c rng) ! f = (document s ! f)\<lparr>childNodes := cs\<rparr>"
    unfolding cr f6 n6 by (rule exI) simp
  have r3: "\<And>k. dom_redundant ?s3 k = dom_active s k" by simp
  have r6: "\<And>k. set (dom_redundant ?s6 k) \<subseteq> set (dom_active s k)"
  proof -
    fix k
    have "set (dom_redundant ?s6 k) \<subseteq> set (dom_redundant ?s5 k)" by (rule redundant_run_subset)
    also have "\<dots> = set (dom_redundant ?s4 k)" by simp
    also have "\<dots> \<subseteq> set (dom_redundant ?s3 k)" by (rule redundant_run_subset)
    finally show "set (dom_redundant ?s6 k) \<subseteq> set (dom_active s k)" by (simp only: r3)
  qed
  {
    fix j assume j: "j < length (document s)" "j \<noteq> f" and na: "\<And>k. j \<notin> set (dom_active s k)"
    have j3: "j < length (document ?s3)" using j(1) by simp
    have n3: "\<And>k. j \<notin> set (dom_redundant ?s3 k)" using na by simp
    have a4: "document ?s4 ! j = document s ! j"
      using run_other_nodes[OF p3 j3 j(2) n3, of ?o "loopCmds env s c rng"] by simp
    have j5: "j < length (document ?s5)" using x4 j(1) unfolding extends_def by simp
    have n5: "\<And>k. j \<notin> set (dom_redundant ?s5 k)"
      using redundant_run_subset[of ?o "loopCmds env s c rng" ?s3] n3 by fastforce
    have a6: "document ?s6 ! j = document ?s5 ! j"
      using run_other_nodes[OF p5 j5 j(2) n5, of ?o "edgeCmds env s c rng"] .
    have n6': "\<And>k. j \<notin> set (dom_redundant ?s6 k)" using r6 na by blast
    have "document (cleanup ?s6) ! j = document ?s6 ! j"
      using cleanup_spec(5)[OF p6 j(2) n6'] .
    then show "document (cycleResult env s c rng) ! j = document s ! j"
      by (simp only: cr a6 d5 a4)
  }
  {
    fix j assume j: "j \<in> set (childNodes (document s ! f))" and na: "\<And>k. j \<notin> set (dom_active s k)"
    have n6': "\<And>k. j \<notin> set (dom_redundant ?s6 k)" using r6 na by blast
    show "j \<in> set (childNodes (document (cycleResult env s c rng) ! f))"
      unfolding cr f6 n6 using j n6' by simp
  }
qed

subsection \<open>The axis line\<close>

lemma lineStyle_fields [simp]:
  "className (lineStyle orientation h n) = className n"
  "parentNode (lineStyle orientation h n) = parentNode n"
  "childNodes (lineStyle orientation h n) = childNodes n"
  "nodeValue (lineStyle orientation h n) = nodeValue n"
  "lineStyle orientation h (lineStyle orientation h n) = lineStyle orientation h n"
  "lineStyle orientation h (n\<lparr>parentNode := v\<rparr>) = (lineStyle orientation h n)\<lparr>parentNode := v\<rparr>"
  by (simp_all add: lineStyle_def)

lemma cls_not_line [simp]: "cls k \<noteq> ''grid horizontal major''"
  by (cases k) simp_all

lemma pool_at_cong:
  assumes pa: "pool_at f s"
    and fr: "frame s' = Some f"
    and a: "dom_active s' = dom_active s" and r: "dom_redundant s' = dom_redundant s"
    and fl: "f < length (document s')"
    and di: "distinct (childNodes (document s' ! f))"
    and nf: "f \<notin> set (childNodes (document s' ! f))"
    and lt: "\<And>i. i \<in> set (childNodes (document s' ! f)) \<Longrightarrow> i < length (document s')"
    and po: "\<And>k i. i \<in> set (dom_active s k @ dom_redundant s k) \<Longrightarrow>
               document s' ! i = document s ! i \<and> i \<in> set (childNodes (document s' ! f))"
    and ch: "\<And>k i. i \<in> set (childNodes (document s' ! f)) \<Longrightarrow> className (document s' ! i) = cls k
               \<Longrightarrow> i \<in> set (childNodes (document s ! f)) \<and> className (document s ! i) = cls k"
  shows "pool_at f s'"
proof -
  have c6: "\<forall>k. distinct (dom_active s' k @ dom_redundant s' k)"
    using pool_atD(6)[OF pa] by (simp only: a r) simp
  have c7: "\<forall>k. \<forall>i \<in> set (dom_active s' k @ dom_redundant s' k).
              className (document s' ! i) = cls k \<and> parentNode (document s' ! i) = Some f
              \<and> i \<in> set (childNodes (document s' ! f))
              \<and> (isText k \<longrightarrow> nodeValue (document s' ! i) \<noteq> None)"
  proof (intro allI ballI)
    fix k i assume "i \<in> set (dom_active s' k @ dom_redundant s' k)"
    then have i: "i \<in> set (dom_active s k @ dom_redundant s k)" by (simp only: a r)
    from po[OF i] pool_atD(7)[OF pa i]
    show "className (document s' ! i) = cls k \<and> parentNode (document s' ! i) = Some f
              \<and> i \<in> set (childNodes (document s' ! f))
              \<and> (isText k \<longrightarrow> nodeValue (document s' ! i) \<noteq> None)" by simp
  qed
  have c8: "\<forall>i \<in> set (childNodes (document s' ! f)). \<forall>k.
              className (document s' ! i) = cls k \<longrightarrow> i \<in> set (dom_active s' k @ dom_redundant s' k)"
  proof (intro allI ballI impI)
    fix k i assume i: "i \<in> set (childNodes (document s' ! f))" and c: "className (document s' ! i) = cls k"
    from ch[OF i c] have "i \<in> set (childNodes (document s ! f))" "className (document s ! i) = cls k"
      by simp_all
    from pool_atD(8)[OF pa this] show "i \<in> set (dom_active s' k @ dom_redundant s' k)"
      by (simp only: a r)
  qed
  have c5: "\<forall>i \<in> set (childNodes (document s' ! f)). i < length (document s')" using lt by blast
  show ?thesis unfolding pool_at_def using fr fl di nf c5 c6 c7 c8 by blast
qed


lemma line_not_pooled:
  assumes "pool_at f s" and "line_ok f s" and "dom_line s = Some l"
  shows "l \<notin> set (dom_active s k @ dom_redundant s k)"
proof
  assume "l \<in> set (dom_active s k @ dom_redundant s k)"
  from pool_atD(7)[OF assms(1) this] have "className (document s ! l) = cls k" by simp
  moreover have "className (document s ! l) = ''grid horizontal major''"
    using assms(2,3) by (simp add: line_ok_def)
  ultimately show False using cls_not_line[of k] by simp
qed




lemma remove1_last: "l \<notin> set xs \<Longrightarrow> remove1 l (xs @ [l]) = xs"
  by (induction xs) auto

lemma state_doc_same: "document s = d \<Longrightarrow> s\<lparr>document := d\<rparr> = s"
  by simp





subsection \<open>Labels and line after one repaint are a fixed point\<close>



text \<open>measuring a character: the probe is appended to the frame and taken out again\<close>

lemma probe_roundtrip:
  assumes f: "f < length d" and n: "length d \<notin> set (childNodes (d ! f))"
    and p: "parentNode n = None"
  shows "removeChild f (length d) (appendChild f (length d) (d @ [n])) = Inr (d @ [n])"
proof -
  let ?m = "length d"
  let ?D = "d[f := (d ! f)\<lparr>childNodes := childNodes (d ! f) @ [?m]\<rparr>] @ [n\<lparr>parentNode := Some f\<rparr>]"
  have a: "appendChild f ?m (d @ [n]) = ?D" using appendChild_fresh[OF f p] .
  have pm: "parentNode (?D ! ?m) = Some f" by (simp add: nth_append)
  have mf: "?m \<noteq> f" using f by simp
  have de: "detach ?m ?D = ?D[f := (?D ! f)\<lparr>childNodes := remove1 ?m (childNodes (?D ! f))\<rparr>,
                              ?m := (?D ! ?m)\<lparr>parentNode := None\<rparr>]"
    using detach_child[OF pm mf] f by simp
  have df: "?D ! f = (d ! f)\<lparr>childNodes := childNodes (d ! f) @ [?m]\<rparr>"
    using f by (simp add: nth_append)
  have dm: "?D ! ?m = n\<lparr>parentNode := Some f\<rparr>" by (simp add: nth_append)
  have "detach ?m ?D = d @ [n]"
    unfolding de df dm using f n p
    by (simp add: remove1_last list_update_append update_last node_upd_same)
  then show ?thesis unfolding a by (simp add: removeChild_def pm)
qed

lemma calc_minor:
  assumes fr: "frame s = Some f" and fl: "f < length (document s)"
    and lt: "\<forall>i \<in> set (childNodes (document s ! f)). i < length (document s)"
  shows "(if props_minorCharHeight s = None then
          (case frame s of
             None \<Rightarrow> Inl (TypeError ''Cannot read property appendChild of undefined'', s)
           | Some f \<Rightarrow>
               (let (measureCharMinor, d) = createElement (document s);
                    d1 = d[measureCharMinor :=
                             (d ! measureCharMinor)\<lparr>className := ''text minor measure'',
                                                    nodeValue := Some ''0''\<rparr>];
                    s1 = s\<lparr>document := appendChild f measureCharMinor d1,
                           props_minorCharHeight := Some (minorClientHeight env),
                           props_minorCharWidth := Some (minorClientWidth env)\<rparr>
                in andThen (lift s1 (removeChild f measureCharMinor (document s1)))
                     (\<lambda>d2. Inr (s1\<lparr>document := d2\<rparr>))))
        else Inr s)
       = Inr (measuredMinor env s)"
proof -
  have nn: "length (document s) \<notin> set (childNodes (document s ! f))" using lt by blast
  have pp: "parentNode (probe ''text minor measure'') = None" by (simp add: probe_def blank_def)
  show ?thesis
    using probe_roundtrip[OF fl nn pp]
    by (simp add: fr createElement_def Let_def update_last lift_def andThen_def probe_def
        measuredMinor_def measuredMajor_def)
qed

lemma calc_major:
  assumes fr: "frame s = Some f" and fl: "f < length (document s)"
    and lt: "\<forall>i \<in> set (childNodes (document s ! f)). i < length (document s)"
  shows "(if props_majorCharHeight s = None then
            (case frame s of
               None \<Rightarrow> Inl (TypeError ''Cannot read property appendChild of undefined'', s)
             | Some f \<Rightarrow>
                 (let (measureCharMajor, d) = createElement (document s);
                      d1 = d[measureCharMajor :=
                               (d ! measureCharMajor)\<lparr>className := ''text major measure'',
                                                      nodeValue := Some ''0''\<rparr>];
                      s3 = s\<lparr>document := appendChild f measureCharMajor d1,
                              props_majorCharHeight := Some (majorClientHeight env),
                              props_majorCharWidth := Some (majorClientWidth env)\<rparr>
                  in andThen (lift s3 (removeChild f measureCharMajor (document s3)))
                       (\<lambda>d2. Inr (s3\<lparr>document := d2\<rparr>))))
          else Inr s)
       = Inr (measuredMajor env s)"
proof -
  have nn: "length (document s) \<notin> set (childNodes (document s ! f))" using lt by blast
  have pp: "parentNode (probe ''text major measure'') = None" by (simp add: probe_def blank_def)
  show ?thesis
    using probe_roundtrip[OF fl nn pp]
    by (simp add: fr createElement_def Let_def update_last lift_def andThen_def probe_def
        measuredMinor_def measuredMajor_def)
qed

lemma andThen_Inr: "andThen (Inr a) g = g a"
  by (simp add: andThen_def)

lemma calc_measured:
  assumes fr: "frame s = Some f" and fl: "f < length (document s)"
    and lt: "\<forall>i \<in> set (childNodes (document s ! f)). i < length (document s)"
  shows "calculateCharSize env s = Inr (measuredMajor env (measuredMinor env s))"
proof -
  let ?s2 = "measuredMinor env s"
  have fr2: "frame ?s2 = Some f" using fr by (simp add: measuredMinor_def)
  have fl2: "f < length (document ?s2)" using fl by (simp add: measuredMinor_def)
  have nf: "document ?s2 ! f = document s ! f" using fl by (simp add: measuredMinor_def nth_append)
  have lt2: "\<forall>i \<in> set (childNodes (document ?s2 ! f)). i < length (document ?s2)"
    using lt by (auto simp: nf) (auto simp: measuredMinor_def)
  show ?thesis
    unfolding calculateCharSize_def calc_minor[OF fr fl lt, of env] andThen_Inr
      calc_major[OF fr2 fl2 lt2, of env]
    by (rule refl)
qed

lemma measured_fields [simp]:
  "frame (measuredMinor env s) = frame s" "frame (measuredMajor env s) = frame s"
  "parent (measuredMinor env s) = parent s" "parent (measuredMajor env s) = parent s"
  "options (measuredMinor env s) = options s" "options (measuredMajor env s) = options s"
  "width (measuredMinor env s) = width s" "width (measuredMajor env s) = width s"
  "range' (measuredMinor env s) = range' s" "range' (measuredMajor env s) = range' s"
  "conversion (measuredMinor env s) = conversion s" "conversion (measuredMajor env s) = conversion s"
  "step (measuredMinor env s) = step s" "step (measuredMajor env s) = step s"
  "dom_active (measuredMinor env s) = dom_active s" "dom_active (measuredMajor env s) = dom_active s"
  "dom_redundant (measuredMinor env s) = dom_redundant s"
  "dom_redundant (measuredMajor env s) = dom_redundant s"
  "dom_line (measuredMinor env s) = dom_line s" "dom_line (measuredMajor env s) = dom_line s"
  by (simp_all add: measuredMinor_def measuredMajor_def)

lemma measured_heights:
  "props_minorCharHeight (measuredMajor env (measuredMinor env s)) \<noteq> None"
  "props_majorCharHeight (measuredMajor env (measuredMinor env s)) \<noteq> None"
  by (simp_all add: measuredMinor_def measuredMajor_def)

lemma measured_document:
  "\<exists>extra. document (measuredMajor env (measuredMinor env s)) = document s @ extra"
  by (simp add: measuredMinor_def measuredMajor_def)

lemma measured_fix:
  "props_minorCharHeight s \<noteq> None \<Longrightarrow> props_majorCharHeight s \<noteq> None
     \<Longrightarrow> measuredMajor env (measuredMinor env s) = s"
  by (auto simp: measuredMinor_def measuredMajor_def)

subsection \<open>The steps of \<^verbatim>\<open>repaint\<close> keep the axis consistent\<close>

lemma kept_cong:
  assumes pa: "pool_at f s" and lo: "line_ok f s"
    and fr: "frame s' = Some f"
    and a: "dom_active s' = dom_active s" and r: "dom_redundant s' = dom_redundant s"
    and dl: "dom_line s' = dom_line s"
    and len: "length (document s) \<le> length (document s')"
    and ch: "childNodes (document s' ! f) = childNodes (document s ! f)"
    and nd: "\<And>i. i \<in> set (childNodes (document s ! f)) \<Longrightarrow> document s' ! i = document s ! i"
  shows "pool_at f s'" and "line_ok f s'"
proof -
  note p = pool_atD[OF pa]
  show "pool_at f s'"
  proof (rule pool_at_cong[OF pa fr a r])
    show "f < length (document s')" using p(2) len by simp
    show "distinct (childNodes (document s' ! f))" using p(3) by (simp add: ch)
    show "f \<notin> set (childNodes (document s' ! f))" using p(4) by (simp add: ch)
    show "\<And>i. i \<in> set (childNodes (document s' ! f)) \<Longrightarrow> i < length (document s')"
      using p(5) len by (fastforce simp: ch)
  next
    fix k i assume i: "i \<in> set (dom_active s k @ dom_redundant s k)"
    have "i \<in> set (childNodes (document s ! f))" using p(7)[OF i] by simp
    then show "document s' ! i = document s ! i \<and> i \<in> set (childNodes (document s' ! f))"
      using nd by (simp add: ch)
  next
    fix k i assume i: "i \<in> set (childNodes (document s' ! f))"
      and c: "className (document s' ! i) = cls k"
    have ics: "i \<in> set (childNodes (document s ! f))" using i by (simp add: ch)
    then show "i \<in> set (childNodes (document s ! f)) \<and> className (document s ! i) = cls k"
      using c nd by simp
  qed
  show "line_ok f s'"
  proof (cases "dom_line s")
    case None
    then show ?thesis by (simp add: line_ok_def dl)
  next
    case (Some l)
    have lf: "l < length (document s)" "l \<noteq> f" "parentNode (document s ! l) = Some f"
      "l \<in> set (childNodes (document s ! f))" "className (document s ! l) = ''grid horizontal major''"
      using lo Some by (simp_all add: line_ok_def)
    have "document s' ! l = document s ! l" using nd[OF lf(4)] .
    then show ?thesis using lf len by (simp add: line_ok_def dl Some ch)
  qed
qed

lemma hung_cong:
  assumes h: "hung f s" and pr: "parent s' = parent s"
    and len: "length (document s) \<le> length (document s')"
    and pn: "parentNode (document s' ! f) = parentNode (document s ! f)"
    and ch: "childNodes (document s' ! f) = childNodes (document s ! f)"
    and nd: "\<forall>j < length (document s). j \<noteq> f \<longrightarrow> document s' ! j = document s ! j"
  shows "hung f s'"
proof -
  have hg: "\<And>p. hangs p f (document s) \<Longrightarrow> hangs p f (document s') \<and> document s' ! p = document s ! p"
    using len nd by (simp add: hangs_def ch)
  show ?thesis
  proof (cases "parentNode (document s ! f)")
    case (Some p)
    have "hangs p f (document s)" "f \<in> set (childNodes (document s ! p))"
      using h Some by (simp_all add: hung_def)
    then show ?thesis using hg[of p] by (simp add: hung_def pn Some)
  next
    case None
    show ?thesis
    proof (cases "parent s")
      case pN: None
      then show ?thesis by (simp add: hung_def pn None pr)
    next
      case (Some par)
      show ?thesis
      proof (cases "getContainer par")
        case cN: None
        then show ?thesis by (simp add: hung_def pn None pr Some)
      next
        case cS: (Some c)
        have "hangs c f (document s)" "f \<notin> set (childNodes (document s ! c))"
          using h None Some cS by (simp_all add: hung_def)
        then show ?thesis using hg[of c] by (simp add: hung_def pn None pr Some cS)
      qed
    qed
  qed
qed

lemma touched_consistent:
  assumes c: "consistentAt f s" and t: "touched f s s'"
  shows "consistentAt f s'"
proof -
  have pa: "pool_at f s" and rd: "dom_redundant s = (\<lambda>k. [])" and lo: "line_ok f s" and h: "hung f s"
    using c by (simp_all add: consistentAt_def)
  note p = pool_atD[OF pa]
  have fr: "frame s' = Some f" using t p(1) by (simp add: touched_def)
  have a: "dom_active s' = dom_active s" and r: "dom_redundant s' = dom_redundant s"
    and dl: "dom_line s' = dom_line s" and pr: "parent s' = parent s"
    and len: "length (document s) \<le> length (document s')"
    and pn: "parentNode (document s' ! f) = parentNode (document s ! f)"
    and ch: "childNodes (document s' ! f) = childNodes (document s ! f)"
    and nd: "\<forall>j < length (document s). j \<noteq> f \<longrightarrow> document s' ! j = document s ! j"
    using t by (simp_all add: touched_def)
  have nd': "\<And>i. i \<in> set (childNodes (document s ! f)) \<Longrightarrow> document s' ! i = document s ! i"
  proof -
    fix i assume i: "i \<in> set (childNodes (document s ! f))"
    then have "i < length (document s)" "i \<noteq> f" using p(4) p(5) by blast+
    then show "document s' ! i = document s ! i" using nd by simp
  qed
  note k = kept_cong[OF pa lo fr a r dl len ch nd']
  have "hung f s'" using h pr len pn ch nd by (rule hung_cong)
  then show ?thesis using k rd by (simp add: consistentAt_def r)
qed

lemma touched_refl: "touched f s s"
  by (simp add: touched_def)

lemma touched_trans:
  assumes "touched f s s'" and "touched f s' s''"
  shows "touched f s s''"
  using assms unfolding touched_def by (metis (no_types, lifting) le_trans less_le_trans)

lemma styled_alt:
  "styled env orientation f s =
     s\<lparr>document := (document s)[f := frameStyle env orientation (height s) (document s ! f)]\<rparr>"
  by (simp add: styled_def Let_def frameStyle_def)

lemma frameStyle_fields [simp]:
  "className (frameStyle env orientation h n) = className n"
  "parentNode (frameStyle env orientation h n) = parentNode n"
  "childNodes (frameStyle env orientation h n) = childNodes n"
  "frameStyle env orientation h (frameStyle env orientation h n) = frameStyle env orientation h n"
  "frameStyle env orientation h (n\<lparr>parentNode := v\<rparr>) = (frameStyle env orientation h n)\<lparr>parentNode := v\<rparr>"
  "frameStyle env orientation h (n\<lparr>childNodes := cs\<rparr>) = (frameStyle env orientation h n)\<lparr>childNodes := cs\<rparr>"
  by (simp_all add: frameStyle_def)

lemma named_fields [simp]:
  "frame (named env f s) = frame s" "parent (named env f s) = parent s"
  "options (named env f s) = options s" "width (named env f s) = offsetWidth env"
  "range' (named env f s) = range' s" "conversion (named env f s) = conversion s"
  "step (named env f s) = step s" "dom_active (named env f s) = dom_active s"
  "dom_redundant (named env f s) = dom_redundant s" "dom_line (named env f s) = dom_line s"
  "props_minorCharHeight (named env f s) = props_minorCharHeight s"
  "props_majorCharHeight (named env f s) = props_majorCharHeight s"
  "document (named env f s) = (document s)[f := (document s ! f)\<lparr>className := ''axis''\<rparr>]"
  by (simp_all add: named_def)

lemma sized_fields [simp]:
  "frame (sized a b par s) = frame s" "parent (sized a b par s) = parent s"
  "options (sized a b par s) = options s" "width (sized a b par s) = width s"
  "range' (sized a b par s) = range' s" "conversion (sized a b par s) = conversion s"
  "step (sized a b par s) = step s" "dom_active (sized a b par s) = dom_active s"
  "dom_redundant (sized a b par s) = dom_redundant s" "dom_line (sized a b par s) = dom_line s"
  "props_minorCharHeight (sized a b par s) = props_minorCharHeight s"
  "props_majorCharHeight (sized a b par s) = props_majorCharHeight s"
  "document (sized a b par s) = document s"
  "sized a b par (sized a b par s) = sized a b par s"
  "sized a b par (s\<lparr>document := d\<rparr>) = (sized a b par s)\<lparr>document := d\<rparr>"
  by (simp_all add: sized_def Let_def)

lemma measured_more [simp]:
  "props_minorCharHeight (measuredMajor env s) = props_minorCharHeight s"
  "height (measuredMajor env s) = height s" "height (measuredMinor env s) = height s"
  by (simp_all add: measuredMinor_def measuredMajor_def)

lemma measured_nth:
  "j < length (document s) \<Longrightarrow> document (measuredMajor env (measuredMinor env s)) ! j = document s ! j"
  by (simp add: measuredMinor_def measuredMajor_def nth_append)

lemma measured_length:
  "length (document s) \<le> length (document (measuredMajor env (measuredMinor env s)))"
  by (simp add: measuredMinor_def measuredMajor_def)

lemma touched_named:
  assumes "f < length (document s)"
  shows "touched f s (named env f s)"
  using assms by (simp add: touched_def)

lemma touched_measured:
  assumes "f < length (document s)"
  shows "touched f s (measuredMajor env (measuredMinor env s))"
  using assms by (simp add: touched_def measured_nth measured_length)

lemma touched_sized: "touched f s (sized a b par s)"
  by (simp add: touched_def)

lemma first_consistent:
  assumes co: "consistent s" and ff: "firstFrame s = (f, s1)"
  shows "consistentAt f s1" and "frame s1 = Some f"
    and "parent s1 = parent s" and "options s1 = options s" and "range' s1 = range' s"
    and "conversion s1 = conversion s" and "step s1 = step s"
    and "dom_active s1 = dom_active s" and "dom_redundant s1 = dom_redundant s"
    and "dom_line s1 = dom_line s"
    and "props_minorCharHeight s1 = props_minorCharHeight s"
    and "props_majorCharHeight s1 = props_majorCharHeight s"
proof -
  have all: "consistentAt f s1 \<and> frame s1 = Some f
    \<and> parent s1 = parent s \<and> options s1 = options s \<and> range' s1 = range' s
    \<and> conversion s1 = conversion s \<and> step s1 = step s
    \<and> dom_active s1 = dom_active s \<and> dom_redundant s1 = dom_redundant s
    \<and> dom_line s1 = dom_line s
    \<and> props_minorCharHeight s1 = props_minorCharHeight s
    \<and> props_majorCharHeight s1 = props_majorCharHeight s"
  proof (cases "frame s")
    case (Some g)
    then have "f = g" "s1 = s" using ff by (simp_all add: firstFrame_def)
    then show ?thesis using co Some by (simp add: consistent_def)
  next
    case None
    let ?d = "document s"
    have f: "f = length ?d" and s1: "s1 = s\<lparr>document := ?d @ [blank], frame := Some (length ?d)\<rparr>"
      using ff None by (auto simp: firstFrame_def createElement_def)
    have em: "dom_active s = (\<lambda>k. [])" "dom_redundant s = (\<lambda>k. [])" "dom_line s = None"
      using co None by (simp_all add: consistent_def)
    have nb: "(?d @ [blank]) ! length ?d = blank" by simp
    have pa: "pool_at f s1"
      unfolding pool_at_def by (simp add: f s1 em blank_def)
    have lo: "line_ok f s1" by (simp add: line_ok_def s1 em)
    have h: "hung f s1"
    proof (cases "parent s")
      case pN: None
      then show ?thesis by (simp add: hung_def f s1 blank_def)
    next
      case (Some par)
      show ?thesis
      proof (cases "getContainer par")
        case cN: None
        then show ?thesis by (simp add: hung_def f s1 blank_def Some)
      next
        case cS: (Some c)
        have c: "c < length ?d" "distinct (childNodes (?d ! c))"
          "\<forall>i \<in> set (childNodes (?d ! c)). i < length ?d"
          using co None Some cS by (simp_all add: consistent_def)
        have "length ?d \<notin> set (childNodes (?d ! c))" using c(3) by blast
        then show ?thesis using c(1,2)
          by (simp add: hung_def f s1 Some cS hangs_def nth_append blank_def)
      qed
    qed
    have "consistentAt f s1" using pa lo h by (simp add: consistentAt_def) (simp add: s1 em)
    then show ?thesis by (simp add: s1 f)
  qed
  show "consistentAt f s1" and "frame s1 = Some f"
    and "parent s1 = parent s" and "options s1 = options s" and "range' s1 = range' s"
    and "conversion s1 = conversion s" and "step s1 = step s"
    and "dom_active s1 = dom_active s" and "dom_redundant s1 = dom_redundant s"
    and "dom_line s1 = dom_line s"
    and "props_minorCharHeight s1 = props_minorCharHeight s"
    and "props_majorCharHeight s1 = props_majorCharHeight s"
    using all by blast+
qed

lemma attached_consistent:
  assumes c: "consistentAt f s" and at: "attached f s = Inr s4"
  shows "consistentAt f s4" and "\<exists>p. parentNode (document s4 ! f) = Some p"
    and "s4 = s\<lparr>document := document s4\<rparr>"
    and "className (document s4 ! f) = className (document s ! f)"
proof -
  have pa: "pool_at f s" and rd: "dom_redundant s = (\<lambda>k. [])" and lo: "line_ok f s" and h: "hung f s"
    using c by (simp_all add: consistentAt_def)
  note p = pool_atD[OF pa]
  let ?d = "document s"
  have all: "consistentAt f s4 \<and> (\<exists>p. parentNode (document s4 ! f) = Some p)
     \<and> s4 = s\<lparr>document := document s4\<rparr> \<and> className (document s4 ! f) = className (?d ! f)"
  proof (cases "parentNode (?d ! f)")
    case (Some q)
    then have "s4 = s" using at by (simp add: attached_def)
    then show ?thesis using c Some by simp
  next
    case None
    from at None obtain par c' where par: "parent s = Some par" and cc: "getContainer par = Some c'"
      and s4: "s4 = s\<lparr>document := appendChild c' f ?d\<rparr>"
      by (auto simp: attached_def split: option.splits)
    have hg: "hangs c' f ?d" "f \<notin> set (childNodes (?d ! c'))"
      using h None par cc by (simp_all add: hung_def)
    have cf: "c' < length ?d" "c' \<noteq> f" "c' \<notin> set (childNodes (?d ! f))"
      "distinct (childNodes (?d ! c'))"
      using hg(1) by (simp_all add: hangs_def)
    have d4: "document s4 = ?d[c' := (?d ! c')\<lparr>childNodes := childNodes (?d ! c') @ [f]\<rparr>,
                               f := (?d ! f)\<lparr>parentNode := Some c'\<rparr>]"
      using cf(2) by (simp add: s4 appendChild_detached[OF None])
    have nf: "document s4 ! f = (?d ! f)\<lparr>parentNode := Some c'\<rparr>" using p(2) by (simp add: d4)
    have nc: "document s4 ! c' = (?d ! c')\<lparr>childNodes := childNodes (?d ! c') @ [f]\<rparr>"
      using cf(1,2) by (simp add: d4)
    have no: "\<And>i. i \<noteq> f \<Longrightarrow> i \<noteq> c' \<Longrightarrow> document s4 ! i = ?d ! i" by (simp add: d4)
    have len: "length (document s4) = length ?d" by (simp add: d4)
    have nd: "\<And>i. i \<in> set (childNodes (?d ! f)) \<Longrightarrow> document s4 ! i = ?d ! i"
    proof -
      fix i assume i: "i \<in> set (childNodes (?d ! f))"
      then have "i \<noteq> f" "i \<noteq> c'" using p(4) cf(3) by blast+
      then show "document s4 ! i = ?d ! i" by (rule no)
    qed
    have k: "pool_at f s4" "line_ok f s4"
    proof -
      have fr: "frame s4 = Some f" using p(1) by (simp add: s4)
      have a: "dom_active s4 = dom_active s" "dom_redundant s4 = dom_redundant s"
        "dom_line s4 = dom_line s" by (simp_all add: s4)
      have le: "length ?d \<le> length (document s4)" by (simp add: len)
      have ch: "childNodes (document s4 ! f) = childNodes (?d ! f)" by (simp add: nf)
      show "pool_at f s4" "line_ok f s4" using kept_cong[OF pa lo fr a le ch nd] by simp_all
    qed
    have h4: "hung f s4"
      using cf hg(2) by (simp add: hung_def nf nc hangs_def len)
    have "consistentAt f s4" using k h4 rd by (simp add: consistentAt_def) (simp add: s4)
    moreover have "s4 = s\<lparr>document := document s4\<rparr>" by (simp add: s4)
    ultimately show ?thesis by (simp add: nf)
  qed
  show "consistentAt f s4" and "\<exists>p. parentNode (document s4 ! f) = Some p"
    and "s4 = s\<lparr>document := document s4\<rparr>"
    and "className (document s4 ! f) = className (document s ! f)"
    using all by blast+
qed

lemma offline_ready:
  assumes c: "consistentAt f s" and pn: "parentNode (document s ! f) = Some p"
    and s8: "s8 = styled env orientation f (s\<lparr>document := offlineDoc p f (document s)\<rparr>)"
  shows "removeChild p f (document s) = Inr (offlineDoc p f (document s))"
    and "nextSibling f (document s) = nextInList f (childNodes (document s ! p))"
    and "pool_at f s8" and "line_ok f s8" and "dom_redundant s8 = (\<lambda>k. [])"
    and "p < length (document s8)" and "p \<noteq> f" and "p \<notin> set (childNodes (document s8 ! f))"
    and "parentNode (document s8 ! f) = None"
    and "childNodes (document s8 ! p) = remove1 f (childNodes (document s ! p))"
    and "f \<in> set (childNodes (document s ! p))" and "distinct (childNodes (document s ! p))"
    and "document s8 ! f = frameStyle env orientation (height s) ((document s ! f)\<lparr>parentNode := None\<rparr>)"
proof -
  have pa: "pool_at f s" and rd: "dom_redundant s = (\<lambda>k. [])" and lo: "line_ok f s" and h: "hung f s"
    using c by (simp_all add: consistentAt_def)
  note q = pool_atD[OF pa]
  let ?d = "document s"
  let ?d7 = "offlineDoc p f ?d"
  have hg: "hangs p f ?d" "f \<in> set (childNodes (?d ! p))" using h pn by (simp_all add: hung_def)
  have pf: "p < length ?d" "p \<noteq> f" "p \<notin> set (childNodes (?d ! f))" "distinct (childNodes (?d ! p))"
    using hg(1) by (simp_all add: hangs_def)
  have fp: "f \<noteq> p" using pf(2) by simp
  have de: "detach f ?d = ?d7"
    unfolding offlineDoc_def using detach_child[OF pn fp q(2) pf(1)] .
  show "removeChild p f ?d = Inr ?d7" by (simp add: removeChild_def pn de)
  show "nextSibling f ?d = nextInList f (childNodes (?d ! p))" by (simp add: nextSibling_def pn)
  have d8: "document s8 = ?d7[f := frameStyle env orientation (height s) (?d7 ! f)]"
    by (simp add: s8 styled_alt)
  have n7f: "?d7 ! f = (?d ! f)\<lparr>parentNode := None\<rparr>" using q(2) by (simp add: offlineDoc_def)
  have len7: "length ?d7 = length ?d" by (simp add: offlineDoc_def)
  show nf: "document s8 ! f = frameStyle env orientation (height s) ((?d ! f)\<lparr>parentNode := None\<rparr>)"
    using q(2) by (simp add: d8 len7 n7f)
  have np: "document s8 ! p = (?d ! p)\<lparr>childNodes := remove1 f (childNodes (?d ! p))\<rparr>"
    using pf(1,2) by (simp add: d8 offlineDoc_def)
  have no: "\<And>i. i \<noteq> f \<Longrightarrow> i \<noteq> p \<Longrightarrow> document s8 ! i = ?d ! i"
    by (simp add: d8 offlineDoc_def)
  have len: "length (document s8) = length ?d" by (simp add: d8 len7)
  have ch: "childNodes (document s8 ! f) = childNodes (?d ! f)" by (simp add: nf)
  have nd: "\<And>i. i \<in> set (childNodes (?d ! f)) \<Longrightarrow> document s8 ! i = ?d ! i"
  proof -
    fix i assume i: "i \<in> set (childNodes (?d ! f))"
    then have "i \<noteq> f" "i \<noteq> p" using q(4) pf(3) by blast+
    then show "document s8 ! i = ?d ! i" by (rule no)
  qed
  have fr: "frame s8 = Some f" using q(1) by (simp add: s8 styled_alt)
  have a: "dom_active s8 = dom_active s" "dom_redundant s8 = dom_redundant s"
    "dom_line s8 = dom_line s" by (simp_all add: s8 styled_alt)
  have le: "length ?d \<le> length (document s8)" by (simp add: len)
  show "pool_at f s8" "line_ok f s8" using kept_cong[OF pa lo fr a le ch nd] by simp_all
  show "dom_redundant s8 = (\<lambda>k. [])" by (simp add: a rd)
  show "p < length (document s8)" using pf(1) by (simp add: len)
  show "p \<noteq> f" by (rule pf(2))
  show "p \<notin> set (childNodes (document s8 ! f))" using pf(3) by (simp add: ch)
  show "parentNode (document s8 ! f) = None" by (simp add: nf)
  show "childNodes (document s8 ! p) = remove1 f (childNodes (?d ! p))" by (simp add: np)
  show "f \<in> set (childNodes (?d ! p))" by (rule hg(2))
  show "distinct (childNodes (?d ! p))" by (rule pf(4))
qed

lemma styled_fields [simp]:
  "frame (styled env orientation f s) = frame s" "parent (styled env orientation f s) = parent s"
  "options (styled env orientation f s) = options s" "width (styled env orientation f s) = width s"
  "height (styled env orientation f s) = height s"
  "range' (styled env orientation f s) = range' s"
  "conversion (styled env orientation f s) = conversion s"
  "step (styled env orientation f s) = step s"
  "dom_active (styled env orientation f s) = dom_active s"
  "dom_redundant (styled env orientation f s) = dom_redundant s"
  "dom_line (styled env orientation f s) = dom_line s"
  "props_minorCharHeight (styled env orientation f s) = props_minorCharHeight s"
  "props_majorCharHeight (styled env orientation f s) = props_majorCharHeight s"
  by (simp_all add: styled_alt)

lemma getOption_options:
  assumes "options s' = options s"
  shows "getOption_orientation s' = getOption_orientation s"
    and "getOption_showMinorLabels s' = getOption_showMinorLabels s"
    and "getOption_showMajorLabels s' = getOption_showMajorLabels s"
  using assms
  by (simp_all add: getOption_orientation_def getOption_showMinorLabels_def getOption_showMajorLabels_def)

lemma prelude:
  assumes co: "consistent s" and ff: "firstFrame s = (f, s1)"
    and at: "attached f (named env f s1) = Inr s4" and pr: "parent s = Some par"
  shows "\<exists>p s8. repaint env s =
            andThen (repaintLabels env s8) (\<lambda>s9. andThen (repaintLine s9)
              (online p f (nextInList f (childNodes (document s4 ! p)))))
         \<and> ready env f p (childNodes (document s4 ! p)) par s8
         \<and> parentNode (document s4 ! f) = Some p
         \<and> range' s8 = range' s \<and> conversion s8 = conversion s \<and> step s8 = step s
         \<and> dom_active s8 = dom_active s \<and> dom_line s8 = dom_line s \<and> options s8 = options s
         \<and> frame s8 = Some f"
proof -
  note fc = first_consistent[OF co ff]
  let ?s3 = "named env f s1"
  have fl1: "f < length (document s1)" using fc(1) by (simp add: consistentAt_def pool_atD(2))
  have c3: "consistentAt f ?s3" using fc(1) touched_named[OF fl1] by (rule touched_consistent)
  note ac = attached_consistent[OF c3 at]
  obtain p where pn4: "parentNode (document s4 ! f) = Some p" using ac(2) by blast
  have pa4: "pool_at f s4" and h4: "hung f s4" using ac(1) by (simp_all add: consistentAt_def)
  note q4 = pool_atD[OF pa4]
  have hg4: "hangs p f (document s4)" using h4 pn4 by (simp add: hung_def)
  have pl4: "p < length (document s4)" using hg4 by (simp add: hangs_def)
  have f4: "frame s4 = frame ?s3" "parent s4 = parent ?s3" "options s4 = options ?s3"
    "width s4 = width ?s3" "range' s4 = range' ?s3" "conversion s4 = conversion ?s3"
    "step s4 = step ?s3" "dom_active s4 = dom_active ?s3" "dom_line s4 = dom_line ?s3"
    by (subst ac(3), simp)+
  let ?s5 = "measuredMajor env (measuredMinor env s4)"
  have lt4: "\<forall>i \<in> set (childNodes (document s4 ! f)). i < length (document s4)"
    using q4(5) by blast
  have calc: "calculateCharSize env s4 = Inr ?s5" using q4(1,2) lt4 by (rule calc_measured)
  have c5: "consistentAt f ?s5" using ac(1) touched_measured[OF q4(2)] by (rule touched_consistent)
  have pr5: "parent ?s5 = Some par" by (simp add: f4 fc pr)
  let ?a = "getOption_showMinorLabels ?s5"
  let ?b = "getOption_showMajorLabels ?s5"
  let ?o = "getOption_orientation ?s5"
  let ?s6 = "sized ?a ?b par ?s5"
  have c6: "consistentAt f ?s6" using c5 touched_sized by (rule touched_consistent)
  have d6: "document ?s6 = document ?s5" by simp
  have pn6: "parentNode (document ?s6 ! f) = Some p" by (simp add: measured_nth[OF q4(2)] pn4)
  have ch6: "childNodes (document ?s6 ! p) = childNodes (document s4 ! p)"
    by (simp add: measured_nth[OF pl4])
  let ?s8 = "styled env ?o f (?s6\<lparr>document := offlineDoc p f (document ?s6)\<rparr>)"
  note ofr = offline_ready[where env = env and orientation = ?o, OF c6 pn6 refl, unfolded ch6]
  have rp: "repaint env s =
            andThen (repaintLabels env ?s8) (\<lambda>s9. andThen (repaintLine s9)
              (online p f (nextInList f (childNodes (document s4 ! p)))))"
    unfolding repaint_split ff prod.case Let_def at andThen_Inr pn4 option.case calc
      painted_def pr5 ofr(1) ofr(2) lift_def sum.case
    by (rule refl)
  define s8 where "s8 = ?s8"
  have o8: "options s8 = options s" by (simp add: s8_def f4 fc)
  have o85: "options s8 = options ?s5" by (simp add: s8_def)
  note g = getOption_options[OF o85]
  have d1: "parent s8 = Some par" by (simp add: s8_def f4 fc pr)
  have d2: "width s8 = offsetWidth env" by (simp add: s8_def f4)
  have d3: "props_minorCharHeight s8 \<noteq> None" "props_majorCharHeight s8 \<noteq> None"
    using measured_heights[of env s4] by (simp_all add: s8_def)
  have d5: "sized (getOption_showMinorLabels s8) (getOption_showMajorLabels s8) par s8 = s8"
    unfolding g by (simp add: s8_def styled_alt)
  have nf8: "document s8 ! f = frameStyle env ?o (height ?s6) ((document ?s6 ! f)\<lparr>parentNode := None\<rparr>)"
    unfolding s8_def by (rule ofr(13))
  have d6: "className (document s8 ! f) = ''axis''"
    unfolding nf8 using fl1 by (simp add: measured_nth[OF q4(2)] ac(4))
  have hs: "height s8 = height ?s6" by (simp add: s8_def)
  have d7: "frameStyle env (getOption_orientation s8) (height s8) (document s8 ! f) = document s8 ! f"
    unfolding g hs nf8 by simp
  have dr: "dressed env f par s8"
    unfolding dressed_def using d1 d2 d3 d5 d6 d7 by blast
  have rd: "ready env f p (childNodes (document s4 ! p)) par s8"
    unfolding ready_def using ofr(3-12)[folded s8_def] dr by blast
  have fl: "range' s8 = range' s" "conversion s8 = conversion s" "step s8 = step s"
    "dom_active s8 = dom_active s" "dom_line s8 = dom_line s" "frame s8 = Some f"
    by (simp_all add: s8_def f4 fc)
  have rp8: "repaint env s =
            andThen (repaintLabels env s8) (\<lambda>s9. andThen (repaintLine s9)
              (online p f (nextInList f (childNodes (document s4 ! p)))))"
    unfolding s8_def by (rule rp)
  show ?thesis using rp8 rd pn4 fl o8 by blast
qed

subsection \<open>The second repaint\<close>









subsection \<open>Repaints that throw and repaints that complete\<close>


lemma attached_ok:
  assumes "parent s = Some par" and "getContainer par = Some c"
  shows "\<exists>s4. attached f s = Inr s4"
proof (cases "parentNode (document s ! f) = None")
  case True
  have "attached f s = Inr (s\<lparr>document := appendChild c f (document s)\<rparr>)"
    using assms True by (simp add: attached_def)
  then show ?thesis by (rule exI)
next
  case False
  have "attached f s = Inr s" using False by (auto simp: attached_def)
  then show ?thesis by (rule exI)
qed


lemma updateConversion_ok:
  assumes r: "range' s = Some rng" and cv: "convertible rng"
  shows "\<exists>c. updateConversion env s = Inr (s\<lparr>conversion := Some c\<rparr>)"
proof (cases "\<exists>g. getProp rng ''conversion'' = JFun g")
  case True
  then obtain g where g: "getProp rng ''conversion'' = JFun g" by blast
  have "updateConversion env s = Inr (s\<lparr>conversion := Some (g (width s))\<rparr>)"
    by (simp add: updateConversion_def r g)
  then show ?thesis by (rule exI)
next
  case False
  have nt: "\<not> truthy (getProp rng ''conversion'')"
    using cv False by (cases "getProp rng ''conversion''") (simp_all add: convertible_def)
  have "updateConversion env s = Inr (s\<lparr>conversion :=
      Some (Range_conversion env (getProp rng ''start'') (getProp rng ''end'') (width s))\<rparr>)"
    using False nt by (cases "getProp rng ''conversion''") (simp_all add: updateConversion_def r)
  then show ?thesis by (rule exI)
qed

lemma nextInList_last: "c \<notin> set xs \<Longrightarrow> nextInList c (xs @ [c]) = None"
proof (induction xs)
  case Nil
  then show ?case by simp
next
  case (Cons x xs)
  then show ?case by (cases xs) auto
qed

text \<open>a repaint up to the axis line\<close>

lemma labels_done:
  assumes co: "consistent s" and pr: "parent s = Some par" and gc: "getContainer par = Some c"
    and rg: "range' s = Some rng" and cv: "convertible rng"
  shows "\<exists>f p cs s8 cc. repaint env s =
             andThen (repaintLine (cycleResult env s8 cc rng)) (online p f (nextInList f cs))
         \<and> pool_at f (cycleResult env s8 cc rng) \<and> line_ok f (cycleResult env s8 cc rng)
         \<and> dom_line (cycleResult env s8 cc rng) = dom_line s
         \<and> options s8 = options s
         \<and> (\<forall>k. length (dom_active (cycleResult env s8 cc rng) k) = emitted env s8 cc rng k)
         \<and> (lastChild s \<longrightarrow> nextInList f cs = None)"
proof -
  obtain f s1 where ff: "firstFrame s = (f, s1)" by (cases "firstFrame s")
  note fc = first_consistent[OF co ff]
  let ?s3 = "named env f s1"
  have p3: "parent ?s3 = Some par" by (simp add: fc pr)
  from attached_ok[OF p3 gc] obtain s4 where at: "attached f ?s3 = Inr s4" by blast
  from prelude[OF co ff at pr] obtain p s8 where
    rp8: "repaint env s = andThen (repaintLabels env s8) (\<lambda>s9. andThen (repaintLine s9)
              (online p f (nextInList f (childNodes (document s4 ! p)))))"
    and rd: "ready env f p (childNodes (document s4 ! p)) par s8"
    and pn4: "parentNode (document s4 ! f) = Some p"
    and fl: "range' s8 = range' s" "options s8 = options s" "dom_line s8 = dom_line s"
    by blast
  let ?cs = "childNodes (document s4 ! p)"
  have r: "pool_at f s8" "line_ok f s8" "dom_redundant s8 = (\<lambda>k. [])"
    using rd by (simp_all add: ready_def)
  have e8: "\<And>k. dom_redundant s8 k = []" by (simp add: r(3))
  have r8: "range' s8 = Some rng" by (simp add: fl rg)
  from updateConversion_ok[OF r8 cv] obtain cc where
    u: "updateConversion env s8 = Inr (s8\<lparr>conversion := Some cc\<rparr>)" by blast
  note cf = cycle_facts[OF r(1) e8 r8 u]
  let ?s9 = "cycleResult env s8 cc rng"
  have L: "repaintLabels env s8 = Inr ?s9" by (rule cf(1))
  have nx: "lastChild s \<longrightarrow> nextInList f ?cs = None"
  proof
    assume la: "lastChild s"
    show "nextInList f ?cs = None"
    proof (cases "parentNode (document ?s3 ! f)")
      case None
      define d3 where "d3 = document ?s3"
      have N: "parentNode (d3 ! f) = None" using None by (simp only: d3_def)
      have "attached f ?s3 = Inr (?s3\<lparr>document := appendChild c f d3\<rparr>)"
        unfolding attached_def d3_def using None p3 gc by simp
      then have s4: "s4 = ?s3\<lparr>document := appendChild c f d3\<rparr>" using at by simp
      have fl1: "f < length (document s1)" using fc(1) by (simp add: consistentAt_def pool_atD(2))
      have c3: "consistentAt f ?s3" using fc(1) touched_named[OF fl1] by (rule touched_consistent)
      have h3: "hung f ?s3" using c3 by (simp add: consistentAt_def)
      have hg: "hangs c f d3" "f \<notin> set (childNodes (d3 ! c))"
        unfolding d3_def using h3 None p3 gc by (simp_all add: hung_def)
      have cf': "c < length d3" "c \<noteq> f" using hg(1) by (simp_all add: hangs_def)
      have d4: "document s4 = d3[c := (d3 ! c)\<lparr>childNodes := childNodes (d3 ! c) @ [f]\<rparr>,
                                 f := (d3 ! f)\<lparr>parentNode := Some c\<rparr>]"
        using cf'(2) by (simp add: s4 appendChild_detached[OF N])
      have fl3: "f < length d3" using fl1 by (simp add: d3_def)
      have "parentNode (document s4 ! f) = Some c" using fl3 by (simp add: d4)
      then have pc: "p = c" using pn4 by simp
      have "childNodes (document s4 ! c) = childNodes (d3 ! c) @ [f]"
        using cf' by (simp add: d4)
      then show ?thesis using hg(2) by (simp add: pc nextInList_last)
    next
      case (Some q)
      then have s4: "s4 = ?s3" using at by (simp add: attached_def)
      have fl1: "f < length (document s1)" using fc(1) by (simp add: consistentAt_def pool_atD(2))
      have fs: "frame s = Some f"
      proof (cases "frame s")
        case None
        then have "f = length (document s)" "document s1 = document s @ [blank]"
          using ff by (auto simp: firstFrame_def createElement_def)
        then have "parentNode (document ?s3 ! f) = None" by (simp add: blank_def)
        then show ?thesis using Some by simp
      next
        case (Some g)
        then show ?thesis using ff by (simp add: firstFrame_def)
      qed
      then have e1: "s1 = s" using ff by (simp add: firstFrame_def)
      have pq: "p = q" using pn4 Some by (simp add: s4)
      have qf: "q \<noteq> f"
      proof -
        have c3: "consistentAt f ?s3" using fc(1) touched_named[OF fl1] by (rule touched_consistent)
        then have "hung f ?s3" by (simp add: consistentAt_def)
        then show ?thesis using Some by (simp add: hung_def hangs_def)
      qed
      have "parentNode (document s ! f) = Some q" using Some fl1 by (simp add: e1)
      then have "nextInList f (childNodes (document s ! q)) = None"
        using la fs by (simp add: lastChild_def)
      then show ?thesis using qf by (simp add: pq s4 e1)
    qed
  qed
  have lo9: "line_ok f ?s9"
  proof (cases "dom_line s8")
    case None
    then show ?thesis by (simp add: line_ok_def cycle_fields)
  next
    case (Some l)
    have lf: "l < length (document s8)" "l \<noteq> f" "parentNode (document s8 ! l) = Some f"
      "l \<in> set (childNodes (document s8 ! f))" "className (document s8 ! l) = ''grid horizontal major''"
      using r(2) Some by (simp_all add: line_ok_def)
    have lna: "\<And>k. l \<notin> set (dom_active s8 k)" using line_not_pooled[OF r(1,2) Some] by simp
    note cn = cycle_nodes[OF r(1) e8, where env = env and c = cc and rng = rng]
    have "document ?s9 ! l = document s8 ! l" using cn(3)[OF lf(1,2) lna] .
    moreover have "l \<in> set (childNodes (document ?s9 ! f))" using cn(4)[OF lf(4) lna] .
    moreover have "l < length (document ?s9)" using lf(1) cn(1) by simp
    ultimately show ?thesis using lf by (simp add: line_ok_def cycle_fields Some)
  qed
  have rp: "repaint env s = andThen (repaintLine ?s9) (online p f (nextInList f ?cs))"
    unfolding rp8 L andThen_Inr by (rule refl)
  have dl: "dom_line ?s9 = dom_line s" by (simp add: cycle_fields fl)
  have em: "\<forall>k. length (dom_active ?s9 k) = emitted env s8 cc rng k" using cf(5) by blast
  show ?thesis
    apply (rule exI[of _ f])
    apply (rule exI[of _ p])
    apply (rule exI[of _ ?cs])
    apply (rule exI[of _ s8])
    apply (rule exI[of _ cc])
    apply (intro conjI)
          apply (rule rp)
         apply (rule cf(2))
        apply (rule lo9)
       apply (rule dl)
      apply (rule fl(2))
     apply (rule em)
    apply (rule nx)
    done
qed


lemma hidden_line:
  assumes co: "consistent s" and pr: "parent s = Some par" and gc: "getContainer par = Some c"
    and rg: "range' s = Some rng" and cv: "convertible rng"
    and h1: "\<not> getOption_showMinorLabels s" and h2: "\<not> getOption_showMajorLabels s"
    and dl: "dom_line s = Some l"
  shows "\<exists>s' f. repaint env s =
             Inl (TypeError ''Failed to execute removeChild: parameter 1 is not of type Node'', s')
           \<and> dom_line s' = Some l \<and> frame s' = Some f
           \<and> parentNode (document s' ! l) = Some f \<and> l \<in> set (childNodes (document s' ! f))"
proof -
  from labels_done[OF co pr gc rg cv, of env] obtain f p cs s8 cc where
    rp: "repaint env s = andThen (repaintLine (cycleResult env s8 cc rng)) (online p f (nextInList f cs))"
    and pa: "pool_at f (cycleResult env s8 cc rng)" and lo: "line_ok f (cycleResult env s8 cc rng)"
    and d9: "dom_line (cycleResult env s8 cc rng) = dom_line s"
    and o: "options s8 = options s"
    by blast
  let ?s9 = "cycleResult env s8 cc rng"
  have c9: "cfg ?s9 = cfg s8" by simp
  have hid: "\<not> (getOption_showMinorLabels ?s9 \<or> getOption_showMajorLabels ?s9)"
    using h1 h2 by (simp add: cfg_getOption[OF c9] getOption_options[OF o])
  have l9: "dom_line ?s9 = Some l" by (simp add: d9 dl)
  have lf: "parentNode (document ?s9 ! l) = Some f" "l \<in> set (childNodes (document ?s9 ! f))"
    using lo l9 by (simp_all add: line_ok_def)
  have "repaintLine ?s9 =
      Inl (TypeError ''Failed to execute removeChild: parameter 1 is not of type Node'', ?s9)"
    using hid l9 lf(1) by (simp add: repaintLine_def)
  then have r: "repaint env s =
      Inl (TypeError ''Failed to execute removeChild: parameter 1 is not of type Node'', ?s9)"
    unfolding rp by (simp add: andThen_def)
  show ?thesis
    apply (rule exI[of _ ?s9])
    apply (rule exI[of _ f])
    apply (intro conjI)
        apply (rule r)
       apply (rule l9)
      apply (rule pool_atD(1)[OF pa])
     apply (rule lf(1))
    apply (rule lf(2))
    done
qed

text \<open>counting the retired elements\<close>

subsection \<open>The claims at concrete inputs\<close>

lemma length_filter_mono:
  assumes "\<And>x. x \<in> set xs \<Longrightarrow> Q x \<Longrightarrow> P x"
  shows "length (filter Q xs) \<le> length (filter P xs)"
  using assms by (induction xs) auto

lemma retired_count:
  assumes d: "distinct xs" and r: "\<And>i. i \<in> set xs \<Longrightarrow> i \<notin> set ys \<Longrightarrow> P i"
  shows "length xs - length ys \<le> length (filter P xs)"
proof -
  have "length (filter (\<lambda>i. i \<in> set ys) xs) = card ({i. i \<in> set ys} \<inter> set xs)"
    using d by (rule distinct_length_filter)
  also have "\<dots> \<le> card (set ys)" by (intro card_mono) auto
  also have "\<dots> \<le> length ys" by (rule card_length)
  finally have a: "length (filter (\<lambda>i. i \<in> set ys) xs) \<le> length ys" .
  have "length xs = length (filter (\<lambda>i. i \<in> set ys) xs) + length (filter (\<lambda>i. i \<notin> set ys) xs)"
    by (simp add: sum_length_filter_compl)
  then have "length xs - length ys \<le> length (filter (\<lambda>i. i \<notin> set ys) xs)" using a by simp
  also have "\<dots> \<le> length (filter P xs)" using r by (intro length_filter_mono) simp
  finally show ?thesis .
qed

text \<open>the cursor of the concrete generators\<close>

lemma cycleTicks_env3_any: "cycleTicks env3 s c rng = [0, 1, 2]"
  by (simp add: cycleTicks_def ticks_env3 env3_cursor)

lemma envOne_cursor:
  "hasNext envOne c = (c < 1)" "next' envOne c = Suc c" "first envOne c = 0"
  "isMajor envOne t = (t = 1)" "fl envOne x = x" "getCurrent envOne t = int t * 30"
  "getLabelMajorAt envOne t (Instant 0) = ''LL''"
  by (simp_all add: envOne_def env3_def)

lemma cycleTicks_envOne: "cycleTicks envOne s c rng = [0]"
proof -
  have a: "ticks envOne 0 0 = 0 # ticks envOne (Suc 0) (Suc 0)"
    by (subst ticks.simps) (simp add: envOne_cursor)
  have b: "ticks envOne (Suc 0) (Suc 0) = []"
    by (subst ticks.simps) (simp add: envOne_cursor)
  show ?thesis by (simp add: cycleTicks_def envOne_cursor a b)
qed

lemma update_envOne:
  "updateConversion envOne offline = Inr (offline\<lparr>conversion := Some conv1\<rparr>)"
  by (simp add: updateConversion_def offline_def rng100_def env3_def envOne_def numOf_def conv1_def)

text \<open>the state after the first cycle of the three-tick generator\<close>

lemma first_cycle:
  "repaintLabels env3 offline = Inr (cycleResult env3 offline conv1 rng100)"
  "stateOf (repaintLabels env3 offline) = cycleResult env3 offline conv1 rng100"
  "pool_at 1 (cycleResult env3 offline conv1 rng100)"
  "dom_redundant (cycleResult env3 offline conv1 rng100) = (\<lambda>k. [])"
  "range' (cycleResult env3 offline conv1 rng100) = Some rng100"
  "updateConversion envOne (cycleResult env3 offline conv1 rng100)
     = Inr ((cycleResult env3 offline conv1 rng100)\<lparr>conversion := Some conv1\<rparr>)"
  "getOption_showMajorLabels (cycleResult env3 offline conv1 rng100)"
  "getOption_showMinorLabels (cycleResult env3 offline conv1 rng100)"
  "length (dom_active (cycleResult env3 offline conv1 rng100) minorTexts) = 3"
  "distinct (dom_active (cycleResult env3 offline conv1 rng100) minorTexts)"
  "length (live (cycleResult env3 offline conv1 rng100) minorTexts) = 3"
proof -
  let ?S = "cycleResult env3 offline conv1 rng100"
  have e: "\<And>k. dom_redundant offline k = []" by (simp add: redundant_offline)
  note cf = cycle_facts[OF pool_at_offline(1) e range_offline(1) update_offline(1)]
  show r: "repaintLabels env3 offline = Inr ?S" by (rule cf(1))
  show "stateOf (repaintLabels env3 offline) = ?S" using r by (rule stateOf_Inr)
  show pa: "pool_at 1 ?S" by (rule cf(2))
  show "dom_redundant ?S = (\<lambda>k. [])" using cf(3) by (intro ext)
  have c: "cfg ?S = cfg offline" by simp
  show "range' ?S = Some rng100" by (simp add: cfg_eqD(4)[OF c] range_offline)
  have cu: "conversion (offline\<lparr>conversion := Some conv1\<rparr>) = Some conv1" by simp
  show "updateConversion envOne ?S = Inr (?S\<lparr>conversion := Some conv1\<rparr>)"
    using update_envOne cu cfg_eqD(4)[OF c] cfg_eqD(5)[OF c] by (rule updateConversion_same)
  show "getOption_showMajorLabels ?S" "getOption_showMinorLabels ?S"
    by (simp_all add: cfg_getOption[OF c] options_offline)
  show l: "length (dom_active ?S minorTexts) = 3"
    by (simp add: cf(5) options_offline cycleTicks_env3)
  show "distinct (dom_active ?S minorTexts)" using pool_atD(6)[OF pa, of minorTexts] by simp
  show "length (live ?S minorTexts) = 3" by (simp add: cf(6) options_offline cycleTicks_env3)
qed

text \<open>C3 at a second, smaller cycle: after the cycle of the three-tick generator has
  left three minor labels, a cycle with a single minor tick leaves one live element of
  each of three kinds and no major gridline; at least two of the three old minor labels
  are detached from the frame.\<close>

theorem pool_conservation_witness:
  "\<exists>s'. repaintLabels envOne (stateOf (repaintLabels env3 offline)) = Inr s' \<and> pool_ok s'
     \<and> length (live (stateOf (repaintLabels env3 offline)) minorTexts) = 3
     \<and> length (live s' minorTexts) = 1 \<and> length (live s' minorLines) = 1
     \<and> length (live s' majorLines) = 0 \<and> length (live s' majorTexts) = 1
     \<and> dom_redundant s' minorTexts = []
     \<and> 2 \<le> length (filter (\<lambda>i. parentNode (document s' ! i) = None)
                     (dom_active (stateOf (repaintLabels env3 offline)) minorTexts))"
proof -
  let ?S = "cycleResult env3 offline conv1 rng100"
  note fc = first_cycle
  have ok: "pool_ok ?S" using fc(3) by (rule pool_okI)
  from pool_conservation[OF ok fc(4) fc(5) fc(6)]
  obtain s' where s': "repaintLabels envOne ?S = Inr s'" "pool_ok s'"
    and k: "\<And>k. length (live s' k) = emitted envOne ?S conv1 rng100 k \<and> dom_redundant s' k = []"
    and ret: "\<And>i. i \<in> set (dom_active ?S minorTexts) \<Longrightarrow> i \<notin> set (dom_active s' minorTexts)
                \<Longrightarrow> parentNode (document s' ! i) = None"
    and la: "set (live s' minorTexts) = set (dom_active s' minorTexts)"
    by blast
  have em: "emitted envOne ?S conv1 rng100 minorTexts = 1"
    "emitted envOne ?S conv1 rng100 minorLines = 1"
    "emitted envOne ?S conv1 rng100 majorLines = 0"
    "emitted envOne ?S conv1 rng100 majorTexts = 1"
    by (simp_all add: cycleTicks_envOne fc(7,8) envOne_cursor inRangeMajor_def edgeLabelPlaced_def)
  note k1 = k[of minorTexts, unfolded em(1)] k[of minorLines, unfolded em(2)]
    k[of majorLines, unfolded em(3)] k[of majorTexts, unfolded em(4)]
  have l1: "length (live s' minorTexts) = 1" using k1(1) by simp
  have c: "length (dom_active ?S minorTexts) - length (live s' minorTexts)
      \<le> length (filter (\<lambda>i. parentNode (document s' ! i) = None) (dom_active ?S minorTexts))"
    using fc(10) by (rule retired_count) (simp add: la ret)
  have two: "2 \<le> length (filter (\<lambda>i. parentNode (document s' ! i) = None) (dom_active ?S minorTexts))"
    using c by (simp add: l1 fc(9))
  show ?thesis
    unfolding fc(2)
    apply (rule exI[of _ s'])
    using s' k1 two
    apply (simp add: fc(11))
    done
qed

text \<open>the axis with an unmeasured and with a zero glyph width\<close>

lemma narrow_facts:
  "pool_ok unmeasured" "pool_ok zeroWidth"
  "dom_redundant unmeasured = (\<lambda>k. [])" "dom_redundant zeroWidth = (\<lambda>k. [])"
  "range' unmeasured = Some rng100" "range' zeroWidth = Some rng100"
  "updateConversion env3 unmeasured = Inr (unmeasured\<lparr>conversion := Some conv1\<rparr>)"
  "updateConversion env3 zeroWidth = Inr (zeroWidth\<lparr>conversion := Some conv1\<rparr>)"
  "getOption_showMajorLabels unmeasured" "getOption_showMajorLabels zeroWidth"
  "props_majorCharWidth unmeasured = None" "props_majorCharWidth zeroWidth = Some 0"
  "props_majorCharWidth offline = Some 7"
proof -
  have a: "pool_at 1 unmeasured" "pool_at 1 zeroWidth"
    by (simp_all add: pool_at_def unmeasured_def zeroWidth_def offline_def fresh_def TimeAxis_def blank_def)
  show "pool_ok unmeasured" "pool_ok zeroWidth" by (rule pool_okI[OF a(1)]) (rule pool_okI[OF a(2)])
  show "dom_redundant unmeasured = (\<lambda>k. [])" "dom_redundant zeroWidth = (\<lambda>k. [])"
    by (simp_all add: unmeasured_def zeroWidth_def redundant_offline)
  show "range' unmeasured = Some rng100" "range' zeroWidth = Some rng100"
    by (simp_all add: unmeasured_def zeroWidth_def range_offline)
  show "updateConversion env3 unmeasured = Inr (unmeasured\<lparr>conversion := Some conv1\<rparr>)"
    "updateConversion env3 zeroWidth = Inr (zeroWidth\<lparr>conversion := Some conv1\<rparr>)"
    by (simp_all add: updateConversion_def unmeasured_def zeroWidth_def offline_def rng100_def
        env3_def numOf_def conv1_def)
  show "getOption_showMajorLabels unmeasured" "getOption_showMajorLabels zeroWidth"
    by (simp_all add: getOption_showMajorLabels_def unmeasured_def zeroWidth_def offline_def
        fresh_def TimeAxis_def opts0_def)
  show "props_majorCharWidth unmeasured = None" "props_majorCharWidth zeroWidth = Some 0"
    "props_majorCharWidth offline = Some 7"
    by (simp_all add: unmeasured_def zeroWidth_def offline_def)
qed

lemma env3_arith:
  "fl env3 x = x" "getCurrent env3 t = int t * 30" "scale conv1 = 1" "offset conv1 = 0"
  by (simp_all add: env3_def conv1_def)

theorem leading_edge_label_witness:
  "(\<exists>s'. repaintLabels env3 offline = Inr s'
      \<and> map (\<lambda>i. (style_left (document s' ! i), nodeValue (document s' ! i))) (dom_active s' majorTexts)
          = [(Px 30, Some ''M''), (Px 0, Some ''LL'')])
   \<and> (\<exists>s'. repaintLabels env3 unmeasured = Inr s'
      \<and> map (\<lambda>i. (style_left (document s' ! i), nodeValue (document s' ! i))) (dom_active s' majorTexts)
          = [(Px 30, Some ''M'')])"
proof (rule conjI)
  show "\<exists>s'. repaintLabels env3 offline = Inr s'
      \<and> map (\<lambda>i. (style_left (document s' ! i), nodeValue (document s' ! i))) (dom_active s' majorTexts)
          = [(Px 30, Some ''M''), (Px 0, Some ''LL'')]"
    using leading_edge_label[OF pool_ok_offline(1) redundant_offline(1) range_offline(1)
        update_offline(1) options_offline(1)]
    apply (simp add: Let_def cycleTicks_env3_any env3_arith env3_ticks_facts narrow_facts)
    apply (elim exE conjE)
    subgoal for s'
      apply (rule exI[of _ s'])
      apply simp
      done
    done
  show "\<exists>s'. repaintLabels env3 unmeasured = Inr s'
      \<and> map (\<lambda>i. (style_left (document s' ! i), nodeValue (document s' ! i))) (dom_active s' majorTexts)
          = [(Px 30, Some ''M'')]"
    using leading_edge_label[OF narrow_facts(1) narrow_facts(3) narrow_facts(5)
        narrow_facts(7) narrow_facts(9)]
    apply (simp add: Let_def cycleTicks_env3_any env3_arith env3_ticks_facts narrow_facts)
    apply (elim exE conjE)
    subgoal for s'
      apply (rule exI[of _ s'])
      apply simp
      done
    done
qed

text \<open>C4 as stated fails: with the glyph width measured as 0 the estimate of the claim
  is \<open>2 * 0 + 10 = 10\<close>, smaller than the position 30 of the first major label, so the
  claim puts a label at pixel 0; the code takes 10 for the width, estimates 30, which is
  not smaller than 30, and places only the label of the loop.\<close>

theorem edge_label_zero_width_counterexample:
  "props_majorCharWidth zeroWidth = Some 0 \<and> getOption_showMajorLabels zeroWidth
   \<and> getLabelMajorAt env3 3 (Instant 0) = ''LL''
   \<and> real (length ''LL'') * 0 + 10 < (30 :: real)
   \<and> repaintLabels env3 zeroWidth = Inr (stateOf (repaintLabels env3 zeroWidth))
   \<and> length (dom_active (stateOf (repaintLabels env3 zeroWidth)) majorTexts) = 1
   \<and> style_left (document (stateOf (repaintLabels env3 zeroWidth))
                   ! (dom_active (stateOf (repaintLabels env3 zeroWidth)) majorTexts ! 0)) = Px 30"
proof -
  from edge_label[OF narrow_facts(2) narrow_facts(4) narrow_facts(6) narrow_facts(8) narrow_facts(10)]
  obtain s' where r: "repaintLabels env3 zeroWidth = Inr s'"
    and m: "map (\<lambda>i. (style_left (document s' ! i), nodeValue (document s' ! i))) (dom_active s' majorTexts)
         = map (\<lambda>t. (Px (pix env3 conv1 t), Some (getLabelMajor env3 t)))
             (inRangeMajor env3 zeroWidth conv1 (cycleTicks env3 zeroWidth conv1 rng100))
           @ (if edgeLabelPlaced env3 zeroWidth conv1 rng100
              then [(Px 0, Some (getLabelMajorAt env3 (finalCursor env3 zeroWidth conv1 rng100) (conv_toTime env3 conv1 0)))]
              else [])"
    by blast
  have S: "stateOf (repaintLabels env3 zeroWidth) = s'" using r by (rule stateOf_Inr)
  have l: "map (\<lambda>i. (style_left (document s' ! i), nodeValue (document s' ! i))) (dom_active s' majorTexts)
         = [(Px 30, Some ''M'')]"
    unfolding m
    by (simp add: cycleTicks_env3_any inRangeMajor_def edgeLabelPlaced_def env3_ticks_facts
        narrow_facts orDefault_def)
  from l have n: "length (dom_active s' majorTexts) = 1"
    using length_map[of "\<lambda>i. (style_left (document s' ! i), nodeValue (document s' ! i))" "dom_active s' majorTexts"]
    by simp
  then obtain i where i: "dom_active s' majorTexts = [i]"
    by (cases "dom_active s' majorTexts") simp_all
  have p: "style_left (document s' ! (dom_active s' majorTexts ! 0)) = Px 30"
    using l by (simp add: i)
  show ?thesis
    unfolding S using r n p by (simp add: narrow_facts env3_ticks_facts)
qed

subsection \<open>The claims about \<^verbatim>\<open>repaint\<close>\<close>

lemma ranged_facts:
  "consistent ranged" "consistent fresh"
  "parent ranged = Some \<lparr> getContainer = Some 0, parent_height = 50 \<rparr>"
  "parent fresh = Some \<lparr> getContainer = Some 0, parent_height = 50 \<rparr>"
  "range' ranged = Some rng100" "range' fresh = None" "convertible rng100"
  "getOption_showMinorLabels ranged" "getOption_showMajorLabels ranged" "lastChild ranged"
  "frame fresh = None" "document fresh = [blank]"
  by (simp_all add: consistent_def ranged_def fresh_def TimeAxis_def blank_def convertible_def
      rng100_def getOption_showMinorLabels_def getOption_showMajorLabels_def opts0_def
      lastChild_def)

lemma paintedHidden_facts:
  "consistent paintedHidden"
  "parent paintedHidden = Some \<lparr> getContainer = Some 0, parent_height = 50 \<rparr>"
  "range' paintedHidden = Some rng100"
  "\<not> getOption_showMinorLabels paintedHidden" "\<not> getOption_showMajorLabels paintedHidden"
  "dom_line paintedHidden = Some 2" "frame paintedHidden = Some 1"
proof -
  have nl: "\<And>k. ''grid horizontal major'' \<noteq> cls k" using cls_not_line by metis
  have pa: "pool_at 1 paintedHidden"
    unfolding pool_at_def
    by (simp add: paintedHidden_def ranged_def fresh_def TimeAxis_def blank_def nl)
  have lo: "line_ok 1 paintedHidden"
    by (simp add: line_ok_def paintedHidden_def ranged_def fresh_def TimeAxis_def blank_def)
  have h: "hung 1 paintedHidden"
    by (simp add: hung_def hangs_def paintedHidden_def ranged_def fresh_def TimeAxis_def blank_def)
  have rd: "dom_redundant paintedHidden = (\<lambda>k. [])"
    by (simp add: paintedHidden_def ranged_def fresh_def TimeAxis_def)
  show f: "frame paintedHidden = Some 1" by (simp add: paintedHidden_def)
  show "consistent paintedHidden"
    unfolding consistent_def f using pa lo h rd by (simp add: consistentAt_def)
  show "parent paintedHidden = Some \<lparr> getContainer = Some 0, parent_height = 50 \<rparr>"
    "range' paintedHidden = Some rng100" "dom_line paintedHidden = Some 2"
    by (simp_all add: paintedHidden_def ranged_def fresh_def TimeAxis_def)
  show "\<not> getOption_showMinorLabels paintedHidden" "\<not> getOption_showMajorLabels paintedHidden"
    by (simp_all add: getOption_showMinorLabels_def getOption_showMajorLabels_def paintedHidden_def)
qed






text \<open>
  C9. The claim holds of what \<^verbatim>\<open>_repaintLine\<close> sets out to do and not of what it does.
  On an axis whose line was created by an earlier repaint and both of whose label kinds
  are hidden now, the repaint throws a \<^verbatim>\<open>TypeError\<close>: the branch for hidden labels
  hands \<^verbatim>\<open>line.line\<close>, which is undefined, to \<^verbatim>\<open>removeChild\<close>. The repaint does not
  complete, and the line is still a child of the frame and still held in \<^verbatim>\<open>dom.line\<close>.
\<close>

theorem hidden_axis_line_throws:
  "\<not> getOption_showMinorLabels paintedHidden \<and> \<not> getOption_showMajorLabels paintedHidden
   \<and> dom_line paintedHidden = Some 2
   \<and> repaint env3 paintedHidden
       = Inl (TypeError ''Failed to execute removeChild: parameter 1 is not of type Node'',
              stateOf (repaint env3 paintedHidden))
   \<and> dom_line (stateOf (repaint env3 paintedHidden)) = Some 2
   \<and> frame (stateOf (repaint env3 paintedHidden)) \<noteq> None
   \<and> parentNode (document (stateOf (repaint env3 paintedHidden)) ! 2)
       = frame (stateOf (repaint env3 paintedHidden))"
proof -
  note p = paintedHidden_facts
  from hidden_line[OF p(1) p(2) _ p(3) ranged_facts(7) p(4) p(5) p(6), of 0 env3]
  obtain s' f where r: "repaint env3 paintedHidden =
             Inl (TypeError ''Failed to execute removeChild: parameter 1 is not of type Node'', s')"
    and d: "dom_line s' = Some 2" "frame s' = Some f" "parentNode (document s' ! 2) = Some f"
    by auto
  have S: "stateOf (repaint env3 paintedHidden) = s'" by (simp add: r stateOf_def)
  show ?thesis unfolding S using r d p(4,5,6) by simp
qed

theorem hidden_axis_line_throws_witness:
  "isl (repaint env3 paintedHidden) \<and> dom_line (stateOf (repaint env3 paintedHidden)) = Some 2"
proof -
  have "repaint env3 paintedHidden
       = Inl (TypeError ''Failed to execute removeChild: parameter 1 is not of type Node'',
              stateOf (repaint env3 paintedHidden))"
    and "dom_line (stateOf (repaint env3 paintedHidden)) = Some 2"
    using hidden_axis_line_throws by blast+
  then show ?thesis by (metis sum.disc(1))
qed

subsection \<open>Round trips through \<^verbatim>\<open>toTime\<close> and \<^verbatim>\<open>toScreen\<close>\<close>









end
